theory Spec2Isabelle
  imports Complex_Main
begin

section \<open>JavaScript values\<close>

text \<open>
  A JavaScript number is an IEEE-754 double: a finite value, which is a rational number,
  one of the two infinities, or NaN. A comparison with NaN is false (this is also what
  \<^verbatim>\<open>undefined >= 0.85\<close> evaluates to, a missing field being converted to NaN).
\<close>

datatype jsnum = Fin rat | PosInf | NegInf | NaN

fun js_ge :: "jsnum \<Rightarrow> jsnum \<Rightarrow> bool" where
  "js_ge NaN _ = False"
| "js_ge _ NaN = False"
| "js_ge PosInf _ = True"
| "js_ge _ NegInf = True"
| "js_ge (Fin a) (Fin b) = (b \<le> a)"
| "js_ge (Fin a) PosInf = False"
| "js_ge NegInf _ = False"

text \<open>
  The numeric literals of the source denote the doubles nearest to them. \<^verbatim>\<open>0.85\<close> and
  \<^verbatim>\<open>0.70\<close> are not dyadic, so the doubles they denote lie slightly below them;
  \<^verbatim>\<open>85\<close> and \<^verbatim>\<open>70\<close> are exact. The two doubles next to the literals
  \<^verbatim>\<open>0.8499\<close> and \<^verbatim>\<open>0.6999\<close> are the inputs of the boundary tests.
\<close>

definition dbl_0_85 :: rat where
  "dbl_0_85 = 7656119366529843 / 9007199254740992"

definition dbl_0_70 :: rat where
  "dbl_0_70 = 3152519739159347 / 4503599627370496"

definition dbl_0_8499 :: rat where
  "dbl_0_8499 = 7655218646604369 / 9007199254740992"

definition dbl_0_6999 :: rat where
  "dbl_0_6999 = 1576034689598305 / 2251799813685248"

text \<open>
  The values that \<^verbatim>\<open>JSON.parse\<close> produces, and \<^verbatim>\<open>undefined\<close> for a missing
  property. Strings are sequences of 8-bit characters, read as the UTF-16 code units
  below 256.
\<close>

datatype jsval =
    JUndefined
  | JNull
  | JBool bool
  | JNum jsnum
  | JStr string
  | JArr "jsval list"
  | JObj "(string \<times> jsval) list"

fun truthy :: "jsval \<Rightarrow> bool" where
  "truthy JUndefined = False"
| "truthy JNull = False"
| "truthy (JBool b) = b"
| "truthy (JNum n) = (n \<noteq> NaN \<and> n \<noteq> Fin 0)"
| "truthy (JStr s) = (s \<noteq> [])"
| "truthy (JArr _) = True"
| "truthy (JObj _) = True"

definition js_or :: "jsval \<Rightarrow> jsval \<Rightarrow> jsval" where
  "js_or a b = (if truthy a then a else b)"

definition js_and :: "jsval \<Rightarrow> jsval \<Rightarrow> jsval" where
  "js_and a b = (if truthy a then b else a)"

datatype js_error = TypeError

section \<open>ChunksSection.jsx and RecordsTable.jsx: the score classifiers\<close>

text \<open>
  \<^verbatim>\<open>
  function scoreLevel(score) {
      if (score >= 0.85) return 'high'
      if (score >= 0.70) return 'medium'
      return 'low'
  }
  function scoreColor(score) {
      if (score >= 85) return '#22C55E'
      if (score >= 70) return '#F59E0B'
      return '#EF4444'
  }
  \<close>
\<close>

definition scoreLevel :: "jsnum \<Rightarrow> string" where
  "scoreLevel score =
     (if js_ge score (Fin dbl_0_85) then ''high''
      else if js_ge score (Fin dbl_0_70) then ''medium''
      else ''low'')"

definition scoreColor :: "jsnum \<Rightarrow> string" where
  "scoreColor score =
     (if js_ge score (Fin 85) then ''#22C55E''
      else if js_ge score (Fin 70) then ''#F59E0B''
      else ''#EF4444'')"

text \<open>
  The three bands and their order. The similarity classifier names the bands itself; the
  compliance classifier returns the colour in which the band is drawn: green for High,
  amber for Medium, red for Low.
\<close>

datatype band = Low | Medium | High

fun band_rank :: "band \<Rightarrow> nat" where
  "band_rank Low = 0"
| "band_rank Medium = 1"
| "band_rank High = 2"

definition band_of_level :: "string \<Rightarrow> band option" where
  "band_of_level l =
     (if l = ''high'' then Some High
      else if l = ''medium'' then Some Medium
      else if l = ''low'' then Some Low
      else None)"

definition band_of_color :: "string \<Rightarrow> band option" where
  "band_of_color c =
     (if c = ''#22C55E'' then Some High
      else if c = ''#F59E0B'' then Some Medium
      else if c = ''#EF4444'' then Some Low
      else None)"

section \<open>RecordsTable.jsx: the audit-status classifier\<close>

text \<open>
  \<^verbatim>\<open>String.prototype.toLowerCase\<close> on the code units below 256: the letters A to Z and
  the capital letters of the Latin-1 block (U+00C0 to U+00DE without the multiplication
  sign U+00D7) move up by 32.
\<close>

definition lower_char :: "char \<Rightarrow> char" where
  "lower_char c =
     (let n = (of_char c :: nat)
      in if (65 \<le> n \<and> n \<le> 90) \<or> (192 \<le> n \<and> n \<le> 222 \<and> n \<noteq> 215)
         then char_of (n + 32) else c)"

definition toLowerCase :: "string \<Rightarrow> string" where
  "toLowerCase s = map lower_char s"

text \<open>
  \<^verbatim>\<open>
  function statusClass(status) {
      const s = (status || '').toLowerCase()
      if (s === 'passed') return 'passed'
      if (s === 'failed') return 'failed'
      return 'pending'
  }
  \<close>
  Only a string has a \<^verbatim>\<open>toLowerCase\<close> method: on any other truthy value the call
  raises a TypeError.
\<close>

definition statusClass :: "jsval \<Rightarrow> js_error + string" where
  "statusClass status =
     (case js_or status (JStr []) of
        JStr t \<Rightarrow>
          (let s = toLowerCase t
           in if s = ''passed'' then Inr ''passed''
              else if s = ''failed'' then Inr ''failed''
              else Inr ''pending'')
      | _ \<Rightarrow> Inl TypeError)"

section \<open>api.js: the query call\<close>

text \<open>
  String helpers of the platform: \<^verbatim>\<open>String.prototype.includes\<close>, the decimal numeral
  of a status code in a template literal, and the conversion of a value to a string that
  \<^verbatim>\<open>new Error(detail)\<close> applies to its argument. The numeral of a double is left to
  the platform: it is the parameter \<open>ns\<close>.
\<close>

definition starts_with :: "string \<Rightarrow> string \<Rightarrow> bool" where
  "starts_with s sub = (take (length sub) s = sub)"

fun str_includes :: "string \<Rightarrow> string \<Rightarrow> bool" where
  "str_includes [] sub = (sub = [])"
| "str_includes (c # t) sub = (starts_with (c # t) sub \<or> str_includes t sub)"

definition digit_char :: "nat \<Rightarrow> char" where
  "digit_char d = ''0123456789'' ! d"

fun show_nat :: "nat \<Rightarrow> string" where
  "show_nat n = (if n < 10 then [digit_char n] else show_nat (n div 10) @ [digit_char (n mod 10)])"

fun join_comma :: "string list \<Rightarrow> string" where
  "join_comma [] = []"
| "join_comma [x] = x"
| "join_comma (x # y # ys) = x @ '','' @ join_comma (y # ys)"

fun to_string :: "(jsnum \<Rightarrow> string) \<Rightarrow> jsval \<Rightarrow> string" where
  "to_string ns JUndefined = ''undefined''"
| "to_string ns JNull = ''null''"
| "to_string ns (JBool b) = (if b then ''true'' else ''false'')"
| "to_string ns (JNum n) = ns n"
| "to_string ns (JStr s) = s"
| "to_string ns (JArr xs) =
     join_comma (map (\<lambda>x. if x = JNull \<or> x = JUndefined then [] else to_string ns x) xs)"
| "to_string ns (JObj kvs) = ''[object Object]''"

text \<open>
  Reading a property of a parsed value by one of the names the source uses
  (\<^verbatim>\<open>detail\<close> and \<^verbatim>\<open>message\<close> of a body, the field names of a result, a chunk and a
  record): an object has the property when the key occurs in it (the last occurrence
  counts); no value of another kind has a property of any of these names.
\<close>

fun get_field :: "jsval \<Rightarrow> string \<Rightarrow> jsval" where
  "get_field (JObj kvs) k = (case map_of (rev kvs) k of Some v \<Rightarrow> v | None \<Rightarrow> JUndefined)"
| "get_field _ k = JUndefined"

text \<open>
  The en dash (U+2013) of the messages lies outside the 8-bit range; it is written as
  its three UTF-8 bytes.
\<close>

definition en_dash :: string where
  "en_dash = [CHR 0xE2, CHR 0x80, CHR 0x93]"

text \<open>
  What \<^verbatim>\<open>fetch\<close> hands to \<^verbatim>\<open>postQuery\<close>: a rejection, or a response with its status
  line, its content type (absent when the header is missing) and what reading the body
  gives, as text and as JSON (absent when the read or the parse fails).
\<close>

datatype exn = Exn (exn_name: string) (exn_message: string)

record response =
  status :: nat
  statusText :: string
  contentType :: "string option"
  bodyText :: "string option"
  bodyJson :: "jsval option"

definition ok :: "response \<Rightarrow> bool" where
  "ok r = (200 \<le> status r \<and> status r \<le> 299)"

datatype fetch_result = FetchRejected exn | FetchResponse response

text \<open>
  \<^verbatim>\<open>
  export async function postQuery(query, signal) {
      let response
      try {
          response = await fetch(url, { method: 'POST', ..., signal })
      } catch (networkErr) {
          if (networkErr.name === 'AbortError') throw networkErr
          throw new Error(`Network error - could not reach the backend. ` +
                          `Is it deployed and running? (${networkErr.message})`)
      }
      let body = null
      const contentType = response.headers.get('content-type') || ''
      if (contentType.includes('application/json')) {
          try { body = await response.json() } catch (_) { body = null }
      } else {
          const text = await response.text().catch(() => '')
          if (!response.ok) {
              throw new Error(`HTTP ${response.status} - Backend returned a non-JSON response. ` +
                              (text ? text.slice(0, 200) : response.statusText))
          }
      }
      if (!response.ok) {
          const detail = (body && (body.detail || body.message)) ||
                         `HTTP ${response.status} - ${response.statusText}`
          throw new Error(detail)
      }
      if (!body) { throw new Error('Backend returned an empty response body.') }
      return body
  }
  \<close>
  (the dashes of the three messages are en dashes in the source).
\<close>

definition after_body :: "(jsnum \<Rightarrow> string) \<Rightarrow> response \<Rightarrow> jsval \<Rightarrow> exn + jsval" where
  "after_body ns r body =
     (if \<not> ok r then
        (let detail =
               js_or (js_and body (js_or (get_field body ''detail'') (get_field body ''message'')))
                 (JStr (''HTTP '' @ show_nat (status r) @ '' '' @ en_dash @ '' '' @ statusText r))
         in Inl (Exn ''Error'' (to_string ns detail)))
      else if \<not> truthy body then Inl (Exn ''Error'' ''Backend returned an empty response body.'')
      else Inr body)"

definition postQuery :: "(jsnum \<Rightarrow> string) \<Rightarrow> fetch_result \<Rightarrow> exn + jsval" where
  "postQuery ns fr =
     (case fr of
        FetchRejected networkErr \<Rightarrow>
          if exn_name networkErr = ''AbortError'' then Inl networkErr
          else Inl (Exn ''Error''
                 (''Network error '' @ en_dash @ '' could not reach the backend. '' @
                  ''Is it deployed and running? ('' @ exn_message networkErr @ '')''))
      | FetchResponse r \<Rightarrow>
          (let ct = (case contentType r of None \<Rightarrow> [] | Some c \<Rightarrow> c)
           in if str_includes ct ''application/json'' then
                after_body ns r (case bodyJson r of Some b \<Rightarrow> b | None \<Rightarrow> JNull)
              else
                (let text = (case bodyText r of Some t \<Rightarrow> t | None \<Rightarrow> [])
                 in if \<not> ok r then
                      Inl (Exn ''Error''
                        (''HTTP '' @ show_nat (status r) @ '' '' @ en_dash @
                         '' Backend returned a non-JSON response. '' @
                         (if text \<noteq> [] then take 200 text else statusText r)))
                    else after_body ns r JNull)))"

text \<open>
  How \<^verbatim>\<open>fetch\<close> settles a request whose signal is aborted: while the response is
  awaited the promise rejects with an AbortError; once the response is there and its body
  is being read, the read fails.
\<close>

datatype cancel_point = BeforeResponse | DuringBody nat string "string option"

fun cancelled_fetch :: "cancel_point \<Rightarrow> fetch_result" where
  "cancelled_fetch BeforeResponse =
     FetchRejected (Exn ''AbortError'' ''signal is aborted without reason'')"
| "cancelled_fetch (DuringBody st txt ct) =
     FetchResponse \<lparr>status = st, statusText = txt, contentType = ct,
       bodyText = None, bodyJson = None\<rparr>"

section \<open>AnswerCard.jsx, ChunksSection.jsx, RecordsTable.jsx: rendering a result\<close>

text \<open>
  Rendering a component yields its output or throws. Three things throw in these
  components: reading a property of \<^verbatim>\<open>null\<close> or \<^verbatim>\<open>undefined\<close> and calling what is
  not a function (a TypeError, as is the one of \<open>statusClass\<close>), a plain object among
  the children of an element (React accepts strings, numbers, booleans, \<^verbatim>\<open>null\<close>,
  \<^verbatim>\<open>undefined\<close> and arrays of these), and ReactMarkdown given children it does not
  take. ReactMarkdown is a library: whether it renders a value is the parameter \<open>md\<close>.
  Only whether a rendering throws matters below, so a rendering that succeeds yields
  the unit value; of several parts the first that throws decides.
\<close>

datatype render_error = Threw js_error | InvalidChild | MarkdownFailed

type_synonym rendering = "render_error + unit"

definition first_error :: "rendering list \<Rightarrow> rendering" where
  "first_error rs = (case filter isl rs of [] \<Rightarrow> Inr () | r # _ \<Rightarrow> r)"

fun valid_child :: "jsval \<Rightarrow> bool" where
  "valid_child (JObj kvs) = False"
| "valid_child (JArr xs) = list_all valid_child xs"
| "valid_child _ = True"

definition child :: "jsval \<Rightarrow> rendering" where
  "child v = (if valid_child v then Inr () else Inl InvalidChild)"

definition read_of :: "jsval \<Rightarrow> rendering" where
  "read_of v = (if v = JNull \<or> v = JUndefined then Inl (Threw TypeError) else Inr ())"

text \<open>
  \<^verbatim>\<open>v.length\<close> for a value that is not \<^verbatim>\<open>null\<close> or \<^verbatim>\<open>undefined\<close>, and
  \<^verbatim>\<open>v.map(f)\<close>: only an array has the method.
\<close>

definition js_length :: "jsval \<Rightarrow> jsval" where
  "js_length v =
     (case v of
        JArr xs \<Rightarrow> JNum (Fin (of_nat (length xs)))
      | JStr t \<Rightarrow> JNum (Fin (of_nat (length t)))
      | _ \<Rightarrow> get_field v ''length'')"

definition map_elements :: "(jsval \<Rightarrow> rendering) \<Rightarrow> jsval \<Rightarrow> rendering" where
  "map_elements f v = (case v of JArr xs \<Rightarrow> first_error (map f xs) | _ \<Rightarrow> Inl (Threw TypeError))"

text \<open>\<^verbatim>\<open>if (!chunks || chunks.length === 0) return null\<close>, and the same for the records.\<close>

definition returns_null :: "jsval \<Rightarrow> bool" where
  "returns_null v = (\<not> truthy v \<or> js_length v = JNum (Fin 0))"

text \<open>
  \<^verbatim>\<open>
  export default function AnswerCard({ answer }) {
      ...
      <ReactMarkdown remarkPlugins={[remarkGfm]} rehypePlugins={[rehypeRaw]}>
          {answer}
      </ReactMarkdown>
  }
  \<close>
\<close>

definition AnswerCard :: "(jsval \<Rightarrow> bool) \<Rightarrow> jsval \<Rightarrow> rendering" where
  "AnswerCard md answer = (if md answer then Inr () else Inl MarkdownFailed)"

text \<open>
  \<^verbatim>\<open>
  function ScoreBadge({ score }) {
      const level = scoreLevel(score)
      const label = (score * 100).toFixed(1) + '%'
      return ( <span className={`score-badge ${level}`}> ... {label} </span> )
  }
  function ChunkItem({ chunk, index }) {
      ... <span className="meta-tag">Contract #{chunk.contract_id}</span>
          <span ...>{chunk.contract_type || 'N/A'}</span>
          <ScoreBadge score={chunk.similarity_score} />
          <div className="chunk-text">{chunk.chunk_text}</div>
  }
  export default function ChunksSection({ chunks }) {
      const [isOpen, setIsOpen] = useState(true)
      if (!chunks || chunks.length === 0) return null
      ... <span className="chunk-count-badge">{chunks.length} chunk...</span>
          {isOpen && ( ... {chunks.map((chunk, idx) => (
                              <ChunkItem key={idx} chunk={chunk} index={idx} />))} )}
  }
  \<close>
  A comparison and a multiplication convert any parsed value to a number without
  throwing, and the label is a string: ScoreBadge renders for every score. The section is
  open when it is mounted.
\<close>

definition ScoreBadge :: "jsval \<Rightarrow> rendering" where
  "ScoreBadge score = Inr ()"

definition ChunkItem :: "jsval \<Rightarrow> rendering" where
  "ChunkItem chunk =
     first_error
       [read_of chunk,
        child (get_field chunk ''contract_id''),
        child (js_or (get_field chunk ''contract_type'') (JStr ''N/A'')),
        ScoreBadge (get_field chunk ''similarity_score''),
        child (get_field chunk ''chunk_text'')]"

definition ChunksSection :: "jsval \<Rightarrow> rendering" where
  "ChunksSection chunks =
     (if returns_null chunks then Inr ()
      else first_error [child (js_length chunks), map_elements ChunkItem chunks])"

text \<open>
  \<^verbatim>\<open>
  export default function RecordsTable({ records }) {
      if (!records || records.length === 0) return null
      ... <span className="chunk-count-badge">{records.length} record...</span>
          {records.map((rec) => ( <RecordRow key={rec.contract_id} rec={rec} /> ))}
  }
  function RecordRow({ rec }) {
      const sc = rec.compliance_score
      const fill = scoreColor(sc)
      return (
          <tr id={`record-row-${rec.contract_id}`}>
              <td><span className="contract-id-tag">#{rec.contract_id}</span></td>
              <td ...>{rec.vendor_name}</td>
              <td>{rec.contract_type}</td>
              <td>{rec.region}</td>
              <td>{rec.jurisdiction}</td>
              <td ...>{rec.policy_name}</td>
              <td> ... <span className="score-val" style={{ color: fill }}>{sc}</span> </td>
              <td>
                  <span className={`status-pill ${statusClass(rec.audit_status)}`}>
                      {statusClass(rec.audit_status) === 'passed' && ...}
                      ...
                      {rec.audit_status}
                  </span>
              </td>
              <td>{rec.duration_months}mo</td>
              <td ...>{rec.contract_date}</td>
          </tr> )
  }
  \<close>
\<close>

definition status_pill :: "jsval \<Rightarrow> rendering" where
  "status_pill audit_status =
     (case statusClass audit_status of
        Inl e \<Rightarrow> Inl (Threw e)
      | Inr cls \<Rightarrow> child audit_status)"

definition RecordRow :: "jsval \<Rightarrow> rendering" where
  "RecordRow rec =
     first_error
       [read_of rec,
        child (get_field rec ''contract_id''),
        child (get_field rec ''vendor_name''),
        child (get_field rec ''contract_type''),
        child (get_field rec ''region''),
        child (get_field rec ''jurisdiction''),
        child (get_field rec ''policy_name''),
        child (get_field rec ''compliance_score''),
        status_pill (get_field rec ''audit_status''),
        child (get_field rec ''duration_months''),
        child (get_field rec ''contract_date'')]"

definition RecordsTable :: "jsval \<Rightarrow> rendering" where
  "RecordsTable records =
     (if returns_null records then Inr ()
      else first_error [child (js_length records), map_elements RecordRow records])"

text \<open>
  A chunk or a record that these components render: an object none of whose fields is an
  object, and for a record an audit status that is a string or is missing.
\<close>

fun plain_fields :: "jsval \<Rightarrow> bool" where
  "plain_fields (JObj kvs) = list_all (\<lambda>kv. valid_child (snd kv)) kvs"
| "plain_fields _ = False"

definition plain_record :: "jsval \<Rightarrow> bool" where
  "plain_record r =
     (plain_fields r \<and>
      (case get_field r ''audit_status'' of
         JStr t \<Rightarrow> True | JNull \<Rightarrow> True | JUndefined \<Rightarrow> True | _ \<Rightarrow> False))"

section \<open>LoadingCard.jsx: the stage indicator\<close>

text \<open>
  \<^verbatim>\<open>
  const STEPS = [ { id: 'filter', ... }, { id: 'postgres', ... }, { id: 'embed', ... },
                  { id: 'milvus', ... }, { id: 'llm', ... } ]
  function useProgressiveSteps() {
      const [active, setActive] = useState(0)
      useEffect(() => {
          const interval = setInterval(() => {
              setActive(prev => (prev < STEPS.length - 1 ? prev + 1 : prev))
          }, 2200)
          return () => clearInterval(interval)
      }, [])
      return active
  }
  \<close>
  The stages are listed by their ids and the text of their labels.
\<close>

definition STEPS :: "(string \<times> string) list" where
  "STEPS =
     [(''filter'', ''Extracting filters''),
      (''postgres'', ''Querying Postgres''),
      (''embed'', ''Creating embedding''),
      (''milvus'', ''Vector search''),
      (''llm'', ''Generating answer'')]"

definition STEP_INTERVAL_MS :: nat where
  "STEP_INTERVAL_MS = 2200"

definition advance :: "nat \<Rightarrow> nat" where
  "advance prev = (if prev < length STEPS - 1 then prev + 1 else prev)"

text \<open>
  A mounted LoadingCard: the index its hook holds and the time since it was mounted. The
  interval fires once every 2200 ms after the mount, and each firing applies
  \<open>advance\<close>.
\<close>

record card =
  active :: nat
  mounted_ms :: nat

definition mount :: card where
  "mount = \<lparr>active = 0, mounted_ms = 0\<rparr>"

definition elapse :: "nat \<Rightarrow> card \<Rightarrow> card" where
  "elapse d c =
     \<lparr>active =
        (advance ^^ ((mounted_ms c + d) div STEP_INTERVAL_MS - mounted_ms c div STEP_INTERVAL_MS))
          (active c),
      mounted_ms = mounted_ms c + d\<rparr>"

text \<open>
  The badges the card shows: the stages before the active one are done, the active one is
  marked active, the later ones are not rendered.
\<close>

definition badges :: "card \<Rightarrow> (string \<times> bool) list" where
  "badges c =
     map (\<lambda>(idx, step). (fst step, idx < active c))
       (filter (\<lambda>(idx, step). idx < active c \<or> idx = active c) (zip [0..<length STEPS] STEPS))"

text \<open>
  App renders \<^verbatim>\<open>{loading && <LoadingCard />}\<close>: the card is mounted when
  \<^verbatim>\<open>loading\<close> becomes true, kept while it stays true, and unmounted (its interval
  cleared, its state dropped) when it becomes false.
\<close>

definition reconcile :: "bool \<Rightarrow> card option \<Rightarrow> card option" where
  "reconcile ld c = (if ld then (case c of None \<Rightarrow> Some mount | Some k \<Rightarrow> Some k) else None)"

section \<open>App.jsx: the query lifecycle\<close>

text \<open>
  White space as \<^verbatim>\<open>String.prototype.trim\<close> strips it, among the code units below
  256: tab, line feed, vertical tab, form feed, carriage return, space and the no-break
  space.
\<close>

definition is_ws :: "char \<Rightarrow> bool" where
  "is_ws c = ((of_char c :: nat) \<in> {9, 10, 11, 12, 13, 32, 160})"

definition trim :: "string \<Rightarrow> string" where
  "trim s = rev (dropWhile is_ws (rev (dropWhile is_ws s)))"

definition QUERY_TIMEOUT_MS :: nat where
  "QUERY_TIMEOUT_MS = 90000"

definition TIMEOUT_MESSAGE :: string where
  "TIMEOUT_MESSAGE = ''Request timed out or was cancelled. Please try again.''"

text \<open>
  The state of the component: the four \<^verbatim>\<open>useState\<close> cells and the ref, and around
  them the platform state that the handlers act on. An accepted submission creates one
  AbortController, one timeout and one call of \<^verbatim>\<open>postQuery\<close>; the three carry the
  same number, the count of the controllers created before. \<open>aborted\<close> holds the
  controllers whose signal is aborted, \<open>timers\<close> the timeouts not yet fired or cleared
  with the time at which they are due, \<open>inflight\<close> the calls not yet settled with the
  query they sent.
\<close>

record app_state =
  query :: string
  loading :: bool
  result :: jsval
  error :: "string option"
  abortRef :: "nat option"
  aborted :: "nat set"
  controllers :: nat
  timers :: "(nat \<times> nat) list"
  inflight :: "(nat \<times> string) list"
  now :: nat

definition init :: app_state where
  "init = \<lparr>query = [], loading = False, result = JNull, error = None, abortRef = None,
     aborted = {}, controllers = 0, timers = [], inflight = [], now = 0\<rparr>"

text \<open>\<^verbatim>\<open>abortRef.current?.abort()\<close>\<close>

definition abort_current :: "app_state \<Rightarrow> app_state" where
  "abort_current s =
     (case abortRef s of None \<Rightarrow> s | Some c \<Rightarrow> s\<lparr>aborted := insert c (aborted s)\<rparr>)"

text \<open>
  \<^verbatim>\<open>
  const handleSubmit = useCallback(async () => {
      if (!query.trim() || loading) return
      abortRef.current?.abort()
      const controller = new AbortController()
      abortRef.current = controller
      setLoading(true)
      setError(null)
      setResult(null)
      const timeoutId = setTimeout(() => controller.abort(), QUERY_TIMEOUT_MS)
      try {
          const data = await postQuery(query.trim(), controller.signal)
          setResult(data)
      } catch (err) {
          if (err.name === 'AbortError') {
              setError('Request timed out or was cancelled. Please try again.')
          } else {
              setError(err.message || 'An unexpected error occurred.')
          }
      } finally {
          clearTimeout(timeoutId)
          setLoading(false)
      }
  }, [query, loading])
  \<close>
  \<open>handleSubmit\<close> is the part that runs when the handler is called, up to the
  \<^verbatim>\<open>await\<close>; \<open>resume\<close> is the part that runs when the call of \<^verbatim>\<open>postQuery\<close>
  for controller \<open>c\<close> settles. A promise settles once: nothing resumes for a call that is
  not in flight.
\<close>

definition handleSubmit :: "app_state \<Rightarrow> app_state" where
  "handleSubmit s =
     (if trim (query s) = [] \<or> loading s then s
      else
        (let s1 = abort_current s;
             c = controllers s1
         in s1\<lparr>abortRef := Some c,
               controllers := c + 1,
               loading := True,
               error := None,
               result := JNull,
               timers := timers s1 @ [(c, now s1 + QUERY_TIMEOUT_MS)],
               inflight := inflight s1 @ [(c, trim (query s1))]\<rparr>))"

definition resume :: "nat \<Rightarrow> exn + jsval \<Rightarrow> app_state \<Rightarrow> app_state" where
  "resume c settled s =
     (if c \<notin> set (map fst (inflight s)) then s
      else
        (let s1 =
               (case settled of
                  Inr data \<Rightarrow> s\<lparr>result := data\<rparr>
                | Inl err \<Rightarrow>
                    if exn_name err = ''AbortError'' then s\<lparr>error := Some TIMEOUT_MESSAGE\<rparr>
                    else s\<lparr>error := Some (if exn_message err \<noteq> [] then exn_message err
                                            else ''An unexpected error occurred.'')\<rparr>)
         in s1\<lparr>timers := filter (\<lambda>t. fst t \<noteq> c) (timers s1),
               loading := False,
               inflight := filter (\<lambda>r. fst r \<noteq> c) (inflight s1)\<rparr>))"

text \<open>
  \<^verbatim>\<open>
  const handleClear = () => {
      abortRef.current?.abort()
      setQuery('')
      setResult(null)
      setError(null)
      setLoading(false)
  }
  const fillExample = (text) => {
      setQuery(text)
      setResult(null)
      setError(null)
  }
  \<close>
\<close>

definition handleClear :: "app_state \<Rightarrow> app_state" where
  "handleClear s = (abort_current s)\<lparr>query := [], result := JNull, error := None, loading := False\<rparr>"

definition fillExample :: "string \<Rightarrow> app_state \<Rightarrow> app_state" where
  "fillExample text s = s\<lparr>query := text, result := JNull, error := None\<rparr>"

text \<open>
  The clock moves on by \<open>d\<close> ms and the timeouts that are due fire: each runs
  \<^verbatim>\<open>controller.abort()\<close> for its controller.
\<close>

definition advance_clock :: "nat \<Rightarrow> app_state \<Rightarrow> app_state" where
  "advance_clock d s =
     (let t = now s + d
      in s\<lparr>now := t,
            aborted := aborted s \<union> set (map fst (filter (\<lambda>tm. snd tm \<le> t) (timers s))),
            timers := filter (\<lambda>tm. \<not> snd tm \<le> t) (timers s)\<rparr>)"

text \<open>
  The events of the component: typing into the query field, picking an example, the
  submit and clear actions, the passing of time, and \<^verbatim>\<open>fetch\<close> completing for the
  call of a controller.
\<close>

datatype event =
    SetQuery string
  | FillExample string
  | Submit
  | Clear
  | Advance nat
  | Settle nat fetch_result

fun dispatch :: "(jsnum \<Rightarrow> string) \<Rightarrow> app_state \<Rightarrow> event \<Rightarrow> app_state" where
  "dispatch ns s (SetQuery text) = s\<lparr>query := text\<rparr>"
| "dispatch ns s (FillExample text) = fillExample text s"
| "dispatch ns s Submit = handleSubmit s"
| "dispatch ns s Clear = handleClear s"
| "dispatch ns s (Advance d) = advance_clock d s"
| "dispatch ns s (Settle c fr) = resume c (postQuery ns fr) s"

text \<open>
  \<^verbatim>\<open>abort()\<close> rejects what the aborted call awaits at once, so the rest of
  \<^verbatim>\<open>handleSubmit\<close> runs for every call in flight whose signal is aborted before the
  next event is handled. \<open>cp\<close> tells where the abort finds each call.
\<close>

definition drain :: "(jsnum \<Rightarrow> string) \<Rightarrow> (nat \<Rightarrow> cancel_point) \<Rightarrow> app_state \<Rightarrow> app_state" where
  "drain ns cp s =
     fold (\<lambda>c. resume c (postQuery ns (cancelled_fetch (cp c))))
       (filter (\<lambda>c. c \<in> aborted s) (map fst (inflight s))) s"

definition step ::
  "(jsnum \<Rightarrow> string) \<Rightarrow> (nat \<Rightarrow> cancel_point) \<Rightarrow> app_state \<Rightarrow> event \<Rightarrow> app_state" where
  "step ns cp s ev = drain ns cp (dispatch ns s ev)"

definition exec ::
  "(jsnum \<Rightarrow> string) \<Rightarrow> (nat \<Rightarrow> cancel_point) \<Rightarrow> event list \<Rightarrow> app_state" where
  "exec ns cp evs = foldl (step ns cp) init evs"







definition results_views :: "(jsval \<Rightarrow> bool) \<Rightarrow> jsval \<Rightarrow> rendering" where
  "results_views md r =
     first_error
       [AnswerCard md (get_field r ''answer''),
        ChunksSection (get_field r ''retrieved_chunks''),
        RecordsTable (get_field r ''structured_records'')]"




text \<open>
  The variant of the lifecycle that the three cells stand for, in the order in which the
  cells take precedence on the screen.
\<close>

datatype lifecycle = Idle | Pending | Succeeded jsval | Failed string

definition lifecycle_of :: "app_state \<Rightarrow> lifecycle" where
  "lifecycle_of s =
     (if loading s then Pending
      else case error s of
             Some m \<Rightarrow> if m \<noteq> [] then Failed m
                       else if truthy (result s) then Succeeded (result s) else Idle
           | None \<Rightarrow> if truthy (result s) then Succeeded (result s) else Idle)"


text \<open>
  The component together with its LoadingCard: time passes for a mounted card, and after
  each event the card is reconciled with \<^verbatim>\<open>loading\<close>.
\<close>

definition ui_step ::
  "(jsnum \<Rightarrow> string) \<Rightarrow> (nat \<Rightarrow> cancel_point) \<Rightarrow> app_state \<times> card option \<Rightarrow> event \<Rightarrow>
   app_state \<times> card option" where
  "ui_step ns cp sc ev =
     (let s' = step ns cp (fst sc) ev;
          c1 = (case ev of Advance d \<Rightarrow> map_option (elapse d) (snd sc) | _ \<Rightarrow> snd sc)
      in (s', reconcile (loading s') c1))"

definition ui_exec ::
  "(jsnum \<Rightarrow> string) \<Rightarrow> (nat \<Rightarrow> cancel_point) \<Rightarrow> event list \<Rightarrow> app_state \<times> card option" where
  "ui_exec ns cp evs = foldl (ui_step ns cp) (init, None) evs"

section \<open>The invariant of the lifecycle\<close>

text \<open>
  The text that the \<^verbatim>\<open>catch\<close> block of \<^verbatim>\<open>handleSubmit\<close> stores for an error.
\<close>

definition err_text :: "exn \<Rightarrow> string" where
  "err_text err =
     (if exn_name err = ''AbortError'' then TIMEOUT_MESSAGE
      else if exn_message err \<noteq> [] then exn_message err
      else ''An unexpected error occurred.'')"

text \<open>
  Between two events the component is in one of two shapes. Either no call is in flight:
  no timeout is pending and \<^verbatim>\<open>loading\<close> is false. Or exactly one call is in flight:
  it belongs to the controller created last, which is the one in \<^verbatim>\<open>abortRef\<close> and is
  not aborted, its timeout is pending and not yet due, \<^verbatim>\<open>loading\<close> is true and both
  \<^verbatim>\<open>error\<close> and \<^verbatim>\<open>result\<close> are null.
\<close>

definition quiet :: "app_state \<Rightarrow> bool" where
  "quiet s = (inflight s = [] \<and> timers s = [] \<and> \<not> loading s)"

definition busy :: "nat \<Rightarrow> app_state \<Rightarrow> bool" where
  "busy c s =
     ((\<exists>q. inflight s = [(c, q)]) \<and> (\<exists>t. timers s = [(c, t)] \<and> now s < t) \<and> loading s \<and>
      abortRef s = Some c \<and> c \<notin> aborted s \<and> Suc c = controllers s \<and>
      error s = None \<and> result s = JNull)"

definition wf :: "app_state \<Rightarrow> bool" where
  "wf s =
     ((\<forall>c. abortRef s = Some c \<longrightarrow> c < controllers s) \<and>
      (\<forall>c \<in> aborted s. c < controllers s) \<and>
      (error s = None \<or> result s = JNull) \<and>
      (result s = JNull \<or> truthy (result s)) \<and>
      error s \<noteq> Some [])"

definition inv :: "app_state \<Rightarrow> bool" where
  "inv s = (wf s \<and> (quiet s \<or> busy (controllers s - 1) s))"

text \<open>
  A mounted card is in step with its clock when it shows the stage that the number of
  elapsed intervals gives, the last stage at most. Reconciled with the component, a card
  is mounted exactly while \<^verbatim>\<open>loading\<close> is true, is in step with its clock, and its
  clock shows the time since the submission, which is the time by which the pending
  timeout has not yet run down.
\<close>

definition synced :: "card \<Rightarrow> bool" where
  "synced c = (active c = min (mounted_ms c div STEP_INTERVAL_MS) (length STEPS - 1))"

definition card_ok :: "app_state \<Rightarrow> card option \<Rightarrow> bool" where
  "card_ok s k =
     (case k of
        None \<Rightarrow> \<not> loading s
      | Some c \<Rightarrow> loading s \<and> synced c \<and>
          (\<exists>t. map snd (timers s) = [t] \<and> mounted_ms c + t = now s + QUERY_TIMEOUT_MS))"

section \<open>Properties of the score classifiers\<close>

lemma dbl_0_85_nearest:
  "dbl_0_85 * 2 ^ 53 = 7656119366529843 \<and> \<bar>dbl_0_85 - 85 / 100\<bar> < 1 / 2 ^ 54"
  by (simp add: dbl_0_85_def)

lemma dbl_0_70_nearest:
  "dbl_0_70 * 2 ^ 53 = 6305039478318694 \<and> \<bar>dbl_0_70 - 70 / 100\<bar> < 1 / 2 ^ 54"
  by (simp add: dbl_0_70_def)

lemma dbl_0_8499_nearest:
  "dbl_0_8499 * 2 ^ 53 = 7655218646604369 \<and> \<bar>dbl_0_8499 - 8499 / 10000\<bar> < 1 / 2 ^ 54"
  by (simp add: dbl_0_8499_def)

lemma dbl_0_6999_nearest:
  "dbl_0_6999 * 2 ^ 53 = 6304138758393220 \<and> \<bar>dbl_0_6999 - 6999 / 10000\<bar> < 1 / 2 ^ 54"
  by (simp add: dbl_0_6999_def)

text \<open>
  Claim C4. Boundary values belong to the higher band. On the similarity scale the
  double \<^verbatim>\<open>0.85\<close> is classified high and the double \<^verbatim>\<open>0.8499\<close> medium, the double
  \<^verbatim>\<open>0.70\<close> medium and the double \<^verbatim>\<open>0.6999\<close> low, and so are the four decimal
  fractions themselves; on the compliance scale 85 is drawn in the colour of the High
  band and 84 in the colour of the Medium band.
\<close>

theorem band_boundaries:
  "scoreLevel (Fin dbl_0_85) = ''high'' \<and>
   scoreLevel (Fin dbl_0_8499) = ''medium'' \<and>
   scoreLevel (Fin dbl_0_70) = ''medium'' \<and>
   scoreLevel (Fin dbl_0_6999) = ''low'' \<and>
   scoreLevel (Fin (85 / 100)) = ''high'' \<and>
   scoreLevel (Fin (8499 / 10000)) = ''medium'' \<and>
   scoreLevel (Fin (70 / 100)) = ''medium'' \<and>
   scoreLevel (Fin (6999 / 10000)) = ''low'' \<and>
   band_of_level ''high'' = Some High \<and> band_of_level ''medium'' = Some Medium \<and>
   band_of_level ''low'' = Some Low \<and>
   scoreColor (Fin 85) = ''#22C55E'' \<and> band_of_color (scoreColor (Fin 85)) = Some High \<and>
   scoreColor (Fin 84) = ''#F59E0B'' \<and> band_of_color (scoreColor (Fin 84)) = Some Medium"
  by (simp add: scoreLevel_def scoreColor_def band_of_color_def band_of_level_def
      dbl_0_85_def dbl_0_70_def dbl_0_8499_def dbl_0_6999_def)

lemma js_ge_trans: "js_ge a b \<Longrightarrow> js_ge b c \<Longrightarrow> js_ge a c"
  by (cases a; cases b; cases c) auto

text \<open>
  Claim C5. On either scale the classifier is a total function of the score: every
  number, the infinities and NaN included, is given one of the three bands, and a score
  outside the scale falls into the band at that end of it. It is monotonic: when
  \<open>s1 >= s2\<close> the band of \<open>s1\<close> is not below the band of \<open>s2\<close> in the order
  Low, Medium, High. (Being a function of the score alone, it is deterministic.)
\<close>

theorem band_total_monotone:
  "(\<exists>b. band_of_level (scoreLevel s) = Some b) \<and>
   (\<exists>b. band_of_color (scoreColor s) = Some b) \<and>
   (js_ge s1 s2 \<longrightarrow>
      (\<exists>b1 b2. band_of_level (scoreLevel s1) = Some b1 \<and>
               band_of_level (scoreLevel s2) = Some b2 \<and> band_rank b2 \<le> band_rank b1) \<and>
      (\<exists>c1 c2. band_of_color (scoreColor s1) = Some c1 \<and>
               band_of_color (scoreColor s2) = Some c2 \<and> band_rank c2 \<le> band_rank c1)) \<and>
   (1 < x \<longrightarrow> scoreLevel (Fin x) = ''high'') \<and>
   (x < 0 \<longrightarrow> scoreLevel (Fin x) = ''low'') \<and>
   (100 < x \<longrightarrow> scoreColor (Fin x) = ''#22C55E'') \<and>
   (x < 0 \<longrightarrow> scoreColor (Fin x) = ''#EF4444'') \<and>
   scoreLevel PosInf = ''high'' \<and> scoreLevel NegInf = ''low'' \<and> scoreLevel NaN = ''low'' \<and>
   scoreColor PosInf = ''#22C55E'' \<and> scoreColor NegInf = ''#EF4444'' \<and>
   scoreColor NaN = ''#EF4444''"
proof -
  have tot1: "\<exists>b. band_of_level (scoreLevel s) = Some b" for s
    by (simp add: scoreLevel_def band_of_level_def)
  have tot2: "\<exists>b. band_of_color (scoreColor s) = Some b" for s
    by (simp add: scoreColor_def band_of_color_def)
  have mono1: "\<exists>b1 b2. band_of_level (scoreLevel s1) = Some b1 \<and>
               band_of_level (scoreLevel s2) = Some b2 \<and> band_rank b2 \<le> band_rank b1"
    if "js_ge s1 s2"
    using that js_ge_trans [OF that, of "Fin dbl_0_85"] js_ge_trans [OF that, of "Fin dbl_0_70"]
    by (auto simp: scoreLevel_def band_of_level_def)
  have mono2: "\<exists>c1 c2. band_of_color (scoreColor s1) = Some c1 \<and>
               band_of_color (scoreColor s2) = Some c2 \<and> band_rank c2 \<le> band_rank c1"
    if "js_ge s1 s2"
    using that js_ge_trans [OF that, of "Fin 85"] js_ge_trans [OF that, of "Fin 70"]
    by (auto simp: scoreColor_def band_of_color_def)
  have out: "(1 < x \<longrightarrow> scoreLevel (Fin x) = ''high'') \<and>
   (x < 0 \<longrightarrow> scoreLevel (Fin x) = ''low'') \<and>
   (100 < x \<longrightarrow> scoreColor (Fin x) = ''#22C55E'') \<and>
   (x < 0 \<longrightarrow> scoreColor (Fin x) = ''#EF4444'')"
    by (simp add: scoreLevel_def scoreColor_def dbl_0_85_def dbl_0_70_def)
  have inf: "scoreLevel PosInf = ''high'' \<and> scoreLevel NegInf = ''low'' \<and>
   scoreLevel NaN = ''low'' \<and> scoreColor PosInf = ''#22C55E'' \<and>
   scoreColor NegInf = ''#EF4444'' \<and> scoreColor NaN = ''#EF4444''"
    by (simp add: scoreLevel_def scoreColor_def)
  show ?thesis using tot1 tot2 mono1 mono2 out inf by blast
qed

theorem band_total_monotone_witness:
  "js_ge (Fin (9/10)) (Fin (1/2)) \<and>
   band_of_level (scoreLevel (Fin (9/10))) = Some High \<and>
   band_of_level (scoreLevel (Fin (1/2))) = Some Low \<and>
   band_of_color (scoreColor (Fin 90)) = Some High \<and>
   scoreLevel (Fin 2) = ''high'' \<and> scoreLevel (Fin (-1)) = ''low'' \<and>
   scoreColor (Fin 101) = ''#22C55E'' \<and> scoreColor (Fin (-1)) = ''#EF4444''"
  using band_total_monotone [of "Fin (9/10)" "Fin (9/10)" "Fin (1/2)" 2]
    band_total_monotone [of "Fin 90" "Fin 90" "Fin 90" 101]
    band_total_monotone [of "Fin 90" "Fin 90" "Fin 90" "-1"]
  by (simp add: scoreLevel_def scoreColor_def band_of_level_def band_of_color_def
      dbl_0_85_def dbl_0_70_def)

section \<open>Properties of the audit-status classifier\<close>

text \<open>
  Claim C10. For a status that is a string, null or undefined, \<open>statusClass\<close> raises
  nothing and returns one of \<^verbatim>\<open>passed\<close>, \<^verbatim>\<open>failed\<close> and \<^verbatim>\<open>pending\<close>: the first
  exactly when the status is a string that lowercases to \<^verbatim>\<open>passed\<close>, the second
  exactly when it lowercases to \<^verbatim>\<open>failed\<close>, and the third in every other case, an
  absent status included.
\<close>

theorem statusClass_total:
  "st = JUndefined \<or> st = JNull \<or> (\<exists>t. st = JStr t) \<Longrightarrow>
   (\<exists>r. statusClass st = Inr r \<and> r \<in> {''passed'', ''failed'', ''pending''}) \<and>
   (statusClass st = Inr ''passed'' \<longleftrightarrow>
      (\<exists>t. st = JStr t \<and> toLowerCase t = ''passed'')) \<and>
   (statusClass st = Inr ''failed'' \<longleftrightarrow>
      (\<exists>t. st = JStr t \<and> toLowerCase t = ''failed'')) \<and>
   (statusClass st = Inr ''pending'' \<longleftrightarrow>
      \<not> (\<exists>t. st = JStr t \<and> (toLowerCase t = ''passed'' \<or> toLowerCase t = ''failed'')))"
  by (auto simp: statusClass_def js_or_def Let_def toLowerCase_def split: if_splits)

theorem statusClass_total_witness:
  "statusClass (JStr ''PASSED'') = Inr ''passed'' \<and>
   statusClass (JStr ''Failed'') = Inr ''failed'' \<and>
   statusClass (JStr ''In Review'') = Inr ''pending'' \<and>
   statusClass JNull = Inr ''pending'' \<and>
   statusClass JUndefined = Inr ''pending'' \<and>
   statusClass (JStr []) = Inr ''pending''"
proof -
  have "toLowerCase ''PASSED'' = ''passed''" "toLowerCase ''Failed'' = ''failed''"
    "toLowerCase ''In Review'' = ''in review''"
    by code_simp+
  then show ?thesis
    using statusClass_total [of "JStr ''PASSED''"] statusClass_total [of "JStr ''Failed''"]
      statusClass_total [of "JStr ''In Review''"] statusClass_total [of JNull]
      statusClass_total [of JUndefined] statusClass_total [of "JStr []"]
    by (simp add: toLowerCase_def)
qed

section \<open>Properties of the lifecycle\<close>

lemma err_text_nonempty: "err_text e \<noteq> []"
  by (simp add: err_text_def TIMEOUT_MESSAGE_def)

lemma postQuery_truthy: "postQuery ns fr = Inr d \<Longrightarrow> truthy d"
  by (auto simp: postQuery_def after_body_def Let_def split: fetch_result.splits if_splits option.splits)

lemma cancelled_rejects: "\<exists>e. postQuery ns (cancelled_fetch p) = Inl e"
  by (cases p) (auto simp: postQuery_def after_body_def Let_def)

lemma cancelled_before_response:
  "postQuery ns (cancelled_fetch BeforeResponse) = Inl (Exn ''AbortError'' ''signal is aborted without reason'')"
  by (simp add: postQuery_def)

lemma drain_none: "\<forall>c \<in> set (map fst (inflight s)). c \<notin> aborted s \<Longrightarrow> drain ns cp s = s"
proof -
  assume a: "\<forall>c \<in> set (map fst (inflight s)). c \<notin> aborted s"
  then have "filter (\<lambda>c. c \<in> aborted s) (map fst (inflight s)) = []"
    by (simp add: filter_empty_conv)
  then show ?thesis by (simp add: drain_def)
qed

lemma drain_one:
  "inflight s = [(c, q)] \<Longrightarrow> c \<in> aborted s \<Longrightarrow>
   drain ns cp s = resume c (postQuery ns (cancelled_fetch (cp c))) s"
  by (simp add: drain_def)

lemma resume_not_inflight: "c \<notin> set (map fst (inflight s)) \<Longrightarrow> resume c r s = s"
  by (simp add: resume_def)

lemma resume_Inl:
  "inflight s = [(c, q)] \<Longrightarrow> timers s = [(c, t)] \<Longrightarrow>
   resume c (Inl e) s = s\<lparr>error := Some (err_text e), timers := [], loading := False, inflight := []\<rparr>"
  by (simp add: resume_def err_text_def)

lemma resume_Inl_fired:
  "inflight s = [(c, q)] \<Longrightarrow> timers s = [] \<Longrightarrow>
   resume c (Inl e) s = s\<lparr>error := Some (err_text e), timers := [], loading := False, inflight := []\<rparr>"
  by (simp add: resume_def err_text_def)

lemma resume_Inr:
  "inflight s = [(c, q)] \<Longrightarrow> timers s = [(c, t)] \<Longrightarrow>
   resume c (Inr d) s = s\<lparr>result := d, timers := [], loading := False, inflight := []\<rparr>"
  by (simp add: resume_def)

lemma step_SetQuery: "inv s \<Longrightarrow> step ns cp s (SetQuery x) = s\<lparr>query := x\<rparr>"
  by (auto simp: step_def inv_def quiet_def busy_def intro!: drain_none)

lemma step_FillExample: "inv s \<Longrightarrow> step ns cp s (FillExample x) = fillExample x s"
  by (auto simp: step_def inv_def quiet_def busy_def fillExample_def intro!: drain_none)

lemma step_Submit_noop: "trim (query s) = [] \<or> loading s \<Longrightarrow> inv s \<Longrightarrow> step ns cp s Submit = s"
  by (auto simp: step_def inv_def quiet_def busy_def handleSubmit_def intro!: drain_none)

lemma step_Submit_accept:
  "trim (query s) \<noteq> [] \<Longrightarrow> \<not> loading s \<Longrightarrow> inv s \<Longrightarrow>
   step ns cp s Submit = handleSubmit s \<and> busy (controllers s) (handleSubmit s) \<and> wf (handleSubmit s)"
  apply (auto simp: step_def inv_def quiet_def busy_def handleSubmit_def Let_def abort_current_def wf_def QUERY_TIMEOUT_MS_def
      split: option.splits intro!: drain_none)
  done


lemma step_Clear_quiet:
  "inv s \<Longrightarrow> \<not> loading s \<Longrightarrow> step ns cp s Clear = handleClear s \<and> quiet (handleClear s)"
  by (auto simp: step_def inv_def quiet_def busy_def handleClear_def abort_current_def
      split: option.splits intro!: drain_none)

lemma step_Clear_busy:
  assumes "inv s" "loading s" "postQuery ns (cancelled_fetch (cp (controllers s - 1))) = Inl e"
  shows "step ns cp s Clear =
    (handleClear s)\<lparr>error := Some (err_text e), timers := [], loading := False, inflight := []\<rparr>"
proof -
  let ?c = "controllers s - 1"
  from assms have b: "busy ?c s" by (auto simp: inv_def quiet_def)
  then obtain q t where q: "inflight s = [(?c, q)]" and t: "timers s = [(?c, t)]"
    and r: "abortRef s = Some ?c"
    by (auto simp: busy_def)
  let ?s1 = "handleClear s"
  have 1: "inflight ?s1 = [(?c, q)]" "timers ?s1 = [(?c, t)]" "?c \<in> aborted ?s1"
    using q t r by (simp_all add: handleClear_def abort_current_def)
  have "step ns cp s Clear = drain ns cp ?s1" by (simp add: step_def)
  also have "\<dots> = resume ?c (Inl e) ?s1"
    using drain_one [OF 1(1) 1(3)] assms(3) by simp
  also have "\<dots> = ?s1\<lparr>error := Some (err_text e), timers := [], loading := False, inflight := []\<rparr>"
    using resume_Inl [OF 1(1) 1(2)] by simp
  finally show ?thesis .
qed

lemma step_Advance_quiet:
  "inv s \<Longrightarrow> \<not> loading s \<Longrightarrow> step ns cp s (Advance d) = s\<lparr>now := now s + d\<rparr>"
  by (cases s) (auto simp: step_def inv_def quiet_def busy_def advance_clock_def Let_def intro!: drain_none)

lemma step_Advance_early:
  "inv s \<Longrightarrow> timers s = [(c, t)] \<Longrightarrow> now s + d < t \<Longrightarrow>
   step ns cp s (Advance d) = s\<lparr>now := now s + d\<rparr>"
  by (cases s) (auto simp: step_def inv_def quiet_def busy_def advance_clock_def Let_def intro!: drain_none)

lemma step_Advance_due:
  assumes "inv s" "timers s = [(c, t)]" "t \<le> now s + d"
    "postQuery ns (cancelled_fetch (cp c)) = Inl e"
  shows "step ns cp s (Advance d) =
    s\<lparr>now := now s + d, aborted := insert c (aborted s),
      error := Some (err_text e), timers := [], loading := False, inflight := []\<rparr>"
proof -
  from assms have b: "busy c s" by (auto simp: inv_def quiet_def busy_def)
  then obtain q where q: "inflight s = [(c, q)]"
    by (auto simp: busy_def)
  let ?s1 = "advance_clock d s"
  have s1: "?s1 = s\<lparr>now := now s + d, aborted := insert c (aborted s), timers := []\<rparr>"
    using assms(2,3) by (simp add: advance_clock_def Let_def)
  have 1: "inflight ?s1 = [(c, q)]" "timers ?s1 = []" "c \<in> aborted ?s1"
    using q by (simp_all add: s1)
  have "step ns cp s (Advance d) = drain ns cp ?s1" by (simp add: step_def)
  also have "\<dots> = resume c (Inl e) ?s1"
    using drain_one [OF 1(1) 1(3)] assms(4) by simp
  also have "\<dots> = ?s1\<lparr>error := Some (err_text e), timers := [], loading := False, inflight := []\<rparr>"
    using resume_Inl_fired [OF 1(1) 1(2)] by simp
  finally show ?thesis by (simp add: s1)
qed

lemma step_Settle_other:
  "inv s \<Longrightarrow> c \<notin> set (map fst (inflight s)) \<Longrightarrow> step ns cp s (Settle c fr) = s"
  by (auto simp: step_def inv_def quiet_def busy_def resume_not_inflight intro!: drain_none)

lemma step_Settle_busy:
  assumes "inv s" "inflight s = [(c, q)]"
  shows "step ns cp s (Settle c fr) =
    (case postQuery ns fr of
       Inr data \<Rightarrow> s\<lparr>result := data, timers := [], loading := False, inflight := []\<rparr>
     | Inl e \<Rightarrow> s\<lparr>error := Some (err_text e), timers := [], loading := False, inflight := []\<rparr>)"
proof -
  from assms have b: "busy c s" by (auto simp: inv_def quiet_def busy_def)
  then obtain t where t: "timers s = [(c, t)]" by (auto simp: busy_def)
  show ?thesis
    using resume_Inl [OF assms(2) t] resume_Inr [OF assms(2) t]
    by (auto simp: step_def split: sum.splits intro!: drain_none)
qed

lemma inv_init: "inv init"
  by (simp add: inv_def wf_def quiet_def init_def)

lemma inv_step: "inv s \<Longrightarrow> inv (step ns cp s ev)"
proof (cases ev)
  case (SetQuery x)
  assume "inv s"
  then show ?thesis unfolding SetQuery step_SetQuery [OF \<open>inv s\<close>]
    by (auto simp: inv_def wf_def quiet_def busy_def split: option.splits)
next
  case (FillExample x)
  assume "inv s"
  then show ?thesis unfolding FillExample step_FillExample [OF \<open>inv s\<close>]
    by (auto simp: inv_def wf_def quiet_def busy_def fillExample_def)
next
  case Submit
  assume i: "inv s"
  show ?thesis
  proof (cases "trim (query s) = [] \<or> loading s")
    case True
    then show ?thesis using i Submit step_Submit_noop by simp
  next
    case False
    then have "step ns cp s Submit = handleSubmit s \<and> busy (controllers s) (handleSubmit s) \<and> wf (handleSubmit s)"
      using step_Submit_accept i by blast
    moreover have "controllers (handleSubmit s) = Suc (controllers s)"
      using False by (simp add: handleSubmit_def Let_def abort_current_def split: option.splits)
    ultimately show ?thesis using Submit by (simp add: inv_def)
  qed
next
  case Clear
  assume i: "inv s"
  show ?thesis
  proof (cases "loading s")
    case False
    then have "step ns cp s Clear = handleClear s \<and> quiet (handleClear s)"
      using step_Clear_quiet i by blast
    moreover have "wf (handleClear s)"
      using i by (auto simp: inv_def wf_def handleClear_def abort_current_def split: option.splits)
    ultimately show ?thesis using Clear by (simp add: inv_def)
  next
    case True
    obtain e where e: "postQuery ns (cancelled_fetch (cp (controllers s - 1))) = Inl e"
      using cancelled_rejects by blast
    show ?thesis unfolding Clear step_Clear_busy [where cp = cp, OF i True e]
      using i True
      by (auto simp: inv_def wf_def quiet_def busy_def handleClear_def abort_current_def err_text_nonempty)
  qed
next
  case (Advance d)
  assume i: "inv s"
  show ?thesis
  proof (cases "loading s")
    case False
    show ?thesis unfolding Advance step_Advance_quiet [OF i False]
      using i False by (auto simp: inv_def wf_def quiet_def busy_def)
  next
    case True
    then have b: "busy (controllers s - 1) s" using i by (auto simp: inv_def quiet_def)
    then obtain t where t: "timers s = [(controllers s - 1, t)]" by (auto simp: busy_def)
    show ?thesis
    proof (cases "now s + d < t")
      case True
      show ?thesis unfolding Advance step_Advance_early [OF i t True]
        using i True t by (auto simp: inv_def wf_def quiet_def busy_def)
    next
      case False
      then have le: "t \<le> now s + d" by simp
      obtain e where e: "postQuery ns (cancelled_fetch (cp (controllers s - 1))) = Inl e"
        using cancelled_rejects by blast
      show ?thesis unfolding Advance step_Advance_due [where cp = cp, OF i t le e]
        using i b by (auto simp: inv_def wf_def quiet_def busy_def err_text_nonempty)
    qed
  qed
next
  case (Settle c fr)
  assume i: "inv s"
  show ?thesis
  proof (cases "c \<in> set (map fst (inflight s))")
    case False
    then show ?thesis using i Settle step_Settle_other by simp
  next
    case True
    then have b: "busy (controllers s - 1) s" using i by (auto simp: inv_def quiet_def)
    then obtain q where q: "inflight s = [(c, q)]" using True by (auto simp: busy_def)
    show ?thesis unfolding Settle step_Settle_busy [OF i q]
      using i b by (auto simp: inv_def wf_def quiet_def busy_def err_text_nonempty
          split: sum.splits dest: postQuery_truthy)
  qed
qed

lemma exec_snoc: "exec ns cp (evs @ [ev]) = step ns cp (exec ns cp evs) ev"
  by (simp add: exec_def)

lemma inv_exec: "inv (exec ns cp evs)"
proof (induction evs rule: rev_induct)
  case Nil
  show ?case by (simp add: exec_def inv_init)
next
  case (snoc ev evs)
  then show ?case by (simp add: exec_snoc inv_step)
qed


text \<open>
  The result views render every payload whose answer ReactMarkdown takes and whose
  chunks and records are arrays of such objects.
\<close>

lemma first_error_all: "\<forall>r \<in> set rs. r = Inr () \<Longrightarrow> first_error rs = Inr ()"
proof -
  assume "\<forall>r \<in> set rs. r = Inr ()"
  then have "filter isl rs = []" by (auto simp: filter_empty_conv)
  then show ?thesis by (simp add: first_error_def)
qed

lemma get_field_valid: "plain_fields v \<Longrightarrow> valid_child (get_field v k)"
proof (cases v)
  case (JObj kvs)
  assume "plain_fields v"
  then have a: "\<forall>kv \<in> set kvs. valid_child (snd kv)" using JObj by (simp add: list_all_iff)
  show ?thesis
  proof (cases "map_of (rev kvs) k")
    case None
    then show ?thesis using JObj by simp
  next
    case (Some x)
    then have "(k, x) \<in> set kvs" using map_of_SomeD by fastforce
    then show ?thesis using a JObj Some by auto
  qed
qed simp_all

lemma ChunkItem_renders: "plain_fields c \<Longrightarrow> ChunkItem c = Inr ()"
proof -
  assume p: "plain_fields c"
  then have "c \<noteq> JNull" "c \<noteq> JUndefined" by auto
  then show ?thesis unfolding ChunkItem_def using get_field_valid [OF p]
    by (intro first_error_all) (auto simp: read_of_def child_def ScoreBadge_def js_or_def)
qed

lemma RecordRow_renders: "plain_record r \<Longrightarrow> RecordRow r = Inr ()"
proof -
  assume "plain_record r"
  then have p: "plain_fields r" and
    st: "case get_field r ''audit_status'' of
         JStr t \<Rightarrow> True | JNull \<Rightarrow> True | JUndefined \<Rightarrow> True | _ \<Rightarrow> False"
    by (simp_all add: plain_record_def)
  from p have n: "r \<noteq> JNull" "r \<noteq> JUndefined" by auto
  have "status_pill (get_field r ''audit_status'') = Inr ()"
    using st get_field_valid [OF p, of "''audit_status''"]
    by (auto simp: status_pill_def statusClass_def js_or_def child_def Let_def split: jsval.splits)
  then show ?thesis unfolding RecordRow_def using n get_field_valid [OF p]
    by (intro first_error_all) (auto simp: read_of_def child_def)
qed

lemma section_renders:
  "list_all plain_fields cs \<Longrightarrow> ChunksSection (JArr cs) = Inr ()"
  "list_all plain_record rs \<Longrightarrow> RecordsTable (JArr rs) = Inr ()"
proof -
  assume "list_all plain_fields cs"
  then have "first_error (map ChunkItem cs) = Inr ()"
    by (intro first_error_all) (auto simp: list_all_iff ChunkItem_renders)
  then show "ChunksSection (JArr cs) = Inr ()"
    by (simp add: ChunksSection_def map_elements_def js_length_def child_def first_error_def)
next
  assume "list_all plain_record rs"
  then have "first_error (map RecordRow rs) = Inr ()"
    by (intro first_error_all) (auto simp: list_all_iff RecordRow_renders)
  then show "RecordsTable (JArr rs) = Inr ()"
    by (simp add: RecordsTable_def map_elements_def js_length_def child_def first_error_def)
qed

lemma results_views_renders:
  "md (get_field p ''answer'') \<Longrightarrow>
   get_field p ''retrieved_chunks'' = JArr cs \<Longrightarrow> list_all plain_fields cs \<Longrightarrow>
   get_field p ''structured_records'' = JArr rs \<Longrightarrow> list_all plain_record rs \<Longrightarrow>
   results_views md p = Inr ()"
  by (simp add: results_views_def AnswerCard_def section_renders first_error_def)





lemma trim_empty_iff: "trim q = [] \<longleftrightarrow> (\<forall>c \<in> set q. is_ws c)"
proof
  assume "trim q = []"
  then have "dropWhile is_ws (rev (dropWhile is_ws q)) = []" by (simp add: trim_def)
  then have "\<forall>c \<in> set (rev (dropWhile is_ws q)). is_ws c"
    by simp
  then have "dropWhile is_ws q = []"
    by (metis hd_dropWhile list.set_sel(1) set_rev)
  then show "\<forall>c \<in> set q. is_ws c" by simp
next
  assume "\<forall>c \<in> set q. is_ws c"
  then have "dropWhile is_ws q = []" by simp
  then show "trim q = []" by (simp add: trim_def del: dropWhile_eq_Nil_conv)
qed

text \<open>
  Claim C6. When the query is empty or consists of white space only, or when a request
  is pending, the submit handler returns at once: the whole state is unchanged, so
  \<^verbatim>\<open>result\<close>, \<^verbatim>\<open>error\<close> and \<^verbatim>\<open>loading\<close> are as before, no controller is created,
  no timeout is started and no call is made.
\<close>

theorem submit_noop:
  "(\<forall>c \<in> set (query s). is_ws c) \<or> loading s \<Longrightarrow>
   handleSubmit s = s \<and>
   (s = exec ns cp evs \<longrightarrow> exec ns cp (evs @ [Submit]) = s)"
proof -
  assume a: "(\<forall>c \<in> set (query s). is_ws c) \<or> loading s"
  then have g: "trim (query s) = [] \<or> loading s" by (simp add: trim_empty_iff)
  then have 1: "handleSubmit s = s" by (simp add: handleSubmit_def)
  have 2: "exec ns cp (evs @ [Submit]) = s" if "s = exec ns cp evs"
    using that g step_Submit_noop [of s ns cp] inv_exec [of ns cp evs] by (simp add: exec_snoc)
  from 1 2 show ?thesis by blast
qed

theorem submit_noop_witness:
  "handleSubmit (init\<lparr>query := ''  ''\<rparr>) = init\<lparr>query := ''  ''\<rparr> \<and>
   loading (exec (\<lambda>n. []) (\<lambda>c. BeforeResponse) [SetQuery ''q'', Submit]) \<and>
   exec (\<lambda>n. []) (\<lambda>c. BeforeResponse) ([SetQuery ''q'', Submit] @ [Submit]) =
   exec (\<lambda>n. []) (\<lambda>c. BeforeResponse) [SetQuery ''q'', Submit]"
proof -
  have 1: "\<forall>c \<in> set (query (init\<lparr>query := ''  ''\<rparr>)). is_ws c"
    by (simp add: is_ws_def)
  have 2: "loading (exec (\<lambda>n. []) (\<lambda>c. BeforeResponse) [SetQuery ''q'', Submit])"
    by (simp add: exec_def step_def drain_def handleSubmit_def abort_current_def init_def
        trim_def is_ws_def Let_def)
  show ?thesis
    using submit_noop [of "init\<lparr>query := ''  ''\<rparr>"] 1
      submit_noop [of "exec (\<lambda>n. []) (\<lambda>c. BeforeResponse) [SetQuery ''q'', Submit]"
        "\<lambda>n. []" "\<lambda>c. BeforeResponse" "[SetQuery ''q'', Submit]"] 2
    by simp
qed

section \<open>Properties of the stage indicator\<close>

lemma min_shift: "(A::nat) \<le> B \<Longrightarrow> min (min A 4 + (B - A)) 4 = min B 4"
  by arith

lemma advance_funpow: "a \<le> 4 \<Longrightarrow> (advance ^^ n) a = min (a + n) 4"
proof (induction n)
  case 0
  then show ?case by simp
next
  case (Suc n)
  then show ?case by (simp add: advance_def STEPS_def min_def)
qed

lemma synced_mount: "synced mount"
  by (simp add: synced_def mount_def STEP_INTERVAL_MS_def)

lemma synced_elapse: "synced c \<Longrightarrow> synced (elapse d c)"
proof -
  assume s: "synced c"
  let ?a = "mounted_ms c div STEP_INTERVAL_MS"
  let ?b = "(mounted_ms c + d) div STEP_INTERVAL_MS"
  have le: "?a \<le> ?b" by (simp add: div_le_mono)
  from s have a: "active c = min ?a 4" by (simp add: synced_def STEPS_def)
  then have "active c \<le> 4" by simp
  then have "(advance ^^ (?b - ?a)) (active c) = min (active c + (?b - ?a)) 4"
    by (rule advance_funpow)
  also have "\<dots> = min ?b 4" using min_shift [OF le] by (simp only: a)
  finally show ?thesis by (simp add: synced_def elapse_def STEPS_def)
qed

lemma elapse_mono: "synced c \<Longrightarrow> active c \<le> active (elapse d c)"
proof -
  assume s: "synced c"
  then have "synced (elapse d c)" by (rule synced_elapse)
  moreover have "mounted_ms c div STEP_INTERVAL_MS \<le> mounted_ms (elapse d c) div STEP_INTERVAL_MS"
    by (simp add: elapse_def div_le_mono)
  ultimately show ?thesis using s by (simp add: synced_def min_def)
qed

lemma ui_exec_snoc: "ui_exec ns cp (evs @ [ev]) = ui_step ns cp (ui_exec ns cp evs) ev"
  by (simp add: ui_exec_def)

lemma fst_ui_exec: "fst (ui_exec ns cp evs) = exec ns cp evs"
  by (induction evs rule: rev_induct)
    (simp_all add: ui_exec_snoc exec_snoc ui_step_def Let_def, simp add: ui_exec_def exec_def)

lemma card_ok_step:
  assumes i: "inv s" and k: "card_ok s k"
  shows "card_ok (fst (ui_step ns cp (s, k) ev)) (snd (ui_step ns cp (s, k) ev))"
proof (cases "loading (step ns cp s ev)")
  case False
  then show ?thesis by (simp add: ui_step_def Let_def reconcile_def card_ok_def)
next
  case True
  note l' = True
  have i': "inv (step ns cp s ev)" using i by (rule inv_step)
  show ?thesis
  proof (cases "loading s")
    case False
    then have kn: "k = None" using k by (simp add: card_ok_def split: option.splits)
    have "ev = Submit \<and> trim (query s) \<noteq> []"
    proof (cases ev)
      case Submit
      then show ?thesis using l' False i step_Submit_noop [of s ns cp] by auto
    next
      case (SetQuery x)
      then show ?thesis using l' False i by (simp add: step_SetQuery)
    next
      case (FillExample x)
      then show ?thesis using l' False i by (simp add: step_FillExample fillExample_def)
    next
      case Clear
      then show ?thesis using l' False i step_Clear_quiet [of s ns cp] by (simp add: quiet_def)
    next
      case (Advance d)
      then show ?thesis using l' False i by (simp add: step_Advance_quiet)
    next
      case (Settle c fr)
      then show ?thesis using l' False i step_Settle_other [of s c ns cp fr]
        by (auto simp: inv_def quiet_def busy_def)
    qed
    then have es: "ev = Submit" "trim (query s) \<noteq> []" by simp_all
    have qs: "quiet s" using i False by (auto simp: inv_def busy_def)
    have st: "step ns cp s Submit = handleSubmit s"
      using step_Submit_accept [of s ns cp] es False i by simp
    have tm: "timers (handleSubmit s) = [(controllers s, now s + QUERY_TIMEOUT_MS)]"
      using qs es False
      by (simp add: handleSubmit_def Let_def abort_current_def quiet_def split: option.splits)
    have nw: "now (handleSubmit s) = now s"
      using es False
      by (simp add: handleSubmit_def Let_def abort_current_def split: option.splits)
    show ?thesis using kn l' synced_mount
      by (simp add: ui_step_def Let_def reconcile_def card_ok_def st tm nw es(1) mount_def)
  next
    case True
    then obtain c t where kc: "k = Some c" and sy: "synced c"
      and tm: "map snd (timers s) = [t]" "mounted_ms c + t = now s + QUERY_TIMEOUT_MS"
      using k by (auto simp: card_ok_def split: option.splits)
    from True i have b: "busy (controllers s - 1) s" by (auto simp: inv_def quiet_def)
    then obtain q where q: "inflight s = [(controllers s - 1, q)]"
      and t: "timers s = [(controllers s - 1, t)]"
      using tm by (auto simp: busy_def)
    show ?thesis
    proof (cases ev)
      case Submit
      then show ?thesis using True i k step_Submit_noop [of s ns cp]
        by (simp add: ui_step_def Let_def reconcile_def kc card_ok_def)
    next
      case (SetQuery x)
      then show ?thesis using True i k
        by (simp add: step_SetQuery ui_step_def Let_def reconcile_def kc card_ok_def)
    next
      case (FillExample x)
      then show ?thesis using True i k
        by (simp add: step_FillExample fillExample_def ui_step_def Let_def reconcile_def kc card_ok_def)
    next
      case Clear
      obtain e where e: "postQuery ns (cancelled_fetch (cp (controllers s - 1))) = Inl e"
        using cancelled_rejects by blast
      show ?thesis using l' unfolding Clear step_Clear_busy [where cp = cp, OF i True e] by simp
    next
      case (Settle c' fr)
      show ?thesis
      proof (cases "c' = controllers s - 1")
        case True
        then show ?thesis using l' step_Settle_busy [OF i q, of ns cp fr] Settle
          by (simp split: sum.splits)
      next
        case False
        then show ?thesis using Settle step_Settle_other [of s c' ns cp fr] i q k l'
          by (simp add: ui_step_def Let_def reconcile_def kc card_ok_def)
      qed
    next
      case (Advance d)
      show ?thesis
      proof (cases "now s + d < t")
        case True
        show ?thesis using l' sy tm t True synced_elapse [OF sy, of d]
          unfolding Advance
          by (simp add: step_Advance_early [OF i t True] ui_step_def Let_def reconcile_def kc
              card_ok_def elapse_def)
      next
        case False
        then have le: "t \<le> now s + d" by simp
        obtain e where e: "postQuery ns (cancelled_fetch (cp (controllers s - 1))) = Inl e"
          using cancelled_rejects by blast
        show ?thesis using l' unfolding Advance step_Advance_due [where cp = cp, OF i t le e]
          by simp
      qed
    qed
  qed
qed

lemma card_ok_exec: "card_ok (fst (ui_exec ns cp evs)) (snd (ui_exec ns cp evs))"
proof (induction evs rule: rev_induct)
  case Nil
  show ?case by (simp add: ui_exec_def card_ok_def init_def)
next
  case (snoc ev evs)
  have "inv (fst (ui_exec ns cp evs))" by (simp add: fst_ui_exec inv_exec)
  from card_ok_step [OF this snoc.IH, of ns cp ev] show ?case
    by (simp add: ui_exec_snoc)
qed


text \<open>
  Claim C8. The loading card is mounted exactly while a request is pending. While it is
  mounted, the index it shows is the number of 2200 ms intervals that have passed since
  the submission, and the index of the last of the five stages once that number exceeds
  it: the index stays below the number of stages, and from one event to the next it
  never decreases. A card that is mounted by an event starts at index 0.
\<close>

theorem stage_indicator:
  "(snd (ui_exec ns cp evs) = None \<longleftrightarrow> \<not> loading (fst (ui_exec ns cp evs))) \<and>
   (\<forall>c. snd (ui_exec ns cp evs) = Some c \<longrightarrow>
      active c = min (mounted_ms c div 2200) 4 \<and> active c < length STEPS \<and>
      (\<exists>t. map snd (timers (fst (ui_exec ns cp evs))) = [t] \<and>
           mounted_ms c + t = now (fst (ui_exec ns cp evs)) + QUERY_TIMEOUT_MS)) \<and>
   (\<forall>c c'. snd (ui_exec ns cp evs) = Some c \<and> snd (ui_exec ns cp (evs @ [ev])) = Some c' \<longrightarrow>
      active c \<le> active c' \<and> mounted_ms c \<le> mounted_ms c') \<and>
   (\<forall>c'. snd (ui_exec ns cp evs) = None \<and> snd (ui_exec ns cp (evs @ [ev])) = Some c' \<longrightarrow>
      active c' = 0 \<and> mounted_ms c' = 0) \<and>
   length STEPS = 5 \<and> STEP_INTERVAL_MS = 2200"
proof -
  let ?s = "fst (ui_exec ns cp evs)" and ?k = "snd (ui_exec ns cp evs)"
  have ok: "card_ok ?s ?k" by (rule card_ok_exec)
  have 1: "?k = None \<longleftrightarrow> \<not> loading ?s"
    using ok by (auto simp: card_ok_def split: option.splits)
  have 2: "active c = min (mounted_ms c div 2200) 4 \<and> active c < length STEPS \<and>
      (\<exists>t. map snd (timers ?s) = [t] \<and> mounted_ms c + t = now ?s + QUERY_TIMEOUT_MS)"
    if "?k = Some c" for c
    using ok that by (auto simp: card_ok_def synced_def STEPS_def STEP_INTERVAL_MS_def)
  have nx: "snd (ui_exec ns cp (evs @ [ev])) =
      reconcile (loading (step ns cp ?s ev))
        (case ev of Advance d \<Rightarrow> map_option (elapse d) ?k | _ \<Rightarrow> ?k)"
    by (simp add: ui_exec_snoc ui_step_def Let_def)
  have 3: "active c \<le> active c' \<and> mounted_ms c \<le> mounted_ms c'"
    if "?k = Some c" "snd (ui_exec ns cp (evs @ [ev])) = Some c'" for c c'
  proof -
    have sy: "synced c" using ok that(1) by (simp add: card_ok_def)
    have "c' = c \<or> (\<exists>d. c' = elapse d c)"
      using that nx by (cases ev) (auto simp: reconcile_def split: if_splits)
    then show ?thesis using elapse_mono [OF sy] by (auto simp: elapse_def)
  qed
  have 4: "active c' = 0 \<and> mounted_ms c' = 0"
    if "?k = None" "snd (ui_exec ns cp (evs @ [ev])) = Some c'" for c'
  proof -
    have "c' = mount"
      using that nx by (cases ev) (auto simp: reconcile_def split: if_splits)
    then show ?thesis by (simp add: mount_def)
  qed
  have 5: "length STEPS = 5 \<and> STEP_INTERVAL_MS = 2200"
    by (simp add: STEPS_def STEP_INTERVAL_MS_def)
  from 1 2 3 4 5 show ?thesis by blast
qed

theorem stage_indicator_witness:
  "snd (ui_exec (\<lambda>n. []) (\<lambda>c. BeforeResponse) [SetQuery ''q'', Submit, Advance 5000]) =
     Some \<lparr>active = 2, mounted_ms = 5000\<rparr> \<and>
   min (5000 div 2200) 4 = (2::nat) \<and>
   loading (fst (ui_exec (\<lambda>n. []) (\<lambda>c. BeforeResponse) [SetQuery ''q'', Submit, Advance 5000]))"
proof -
  have "snd (ui_exec (\<lambda>n. []) (\<lambda>c. BeforeResponse) [SetQuery ''q'', Submit, Advance 5000]) =
     Some \<lparr>active = 2, mounted_ms = 5000\<rparr>"
    by (simp add: ui_exec_def ui_step_def step_def drain_def handleSubmit_def abort_current_def
        init_def trim_def is_ws_def Let_def advance_clock_def QUERY_TIMEOUT_MS_def reconcile_def
        mount_def elapse_def STEP_INTERVAL_MS_def numeral_2_eq_2 advance_def STEPS_def)
  then show ?thesis
    using stage_indicator [of "\<lambda>n. []" "\<lambda>c. BeforeResponse"
        "[SetQuery ''q'', Submit, Advance 5000]" Clear]
    by (simp add: STEP_INTERVAL_MS_def)
qed

section \<open>Properties of the query call\<close>

text \<open>
  Claim C9, as the source has it. A response whose content type is not JSON and whose
  status is not 2xx makes the call fail with a message that gives the status code and
  then the first 200 characters of the body, or the status text when the body is empty or
  cannot be read. A response with a 2xx status makes the call fail with the message
  \<^verbatim>\<open>Backend returned an empty response body.\<close> whenever it does not carry a JSON body
  that parses to a truthy value: when the body is empty, and also when the content type
  is not JSON. The call succeeds only for a 2xx response with such a JSON body.
\<close>

theorem non_json_or_empty_body_fails:
  "(\<not> str_includes (case contentType r of None \<Rightarrow> [] | Some c \<Rightarrow> c) ''application/json'' \<and>
    \<not> ok r \<longrightarrow>
      (\<exists>excerpt.
         postQuery ns (FetchResponse r) =
           Inl (Exn ''Error''
             (''HTTP '' @ show_nat (status r) @ '' '' @ en_dash @
              '' Backend returned a non-JSON response. '' @ excerpt)) \<and>
         excerpt =
           (case bodyText r of
              None \<Rightarrow> statusText r
            | Some t \<Rightarrow> if t = [] then statusText r else take 200 t) \<and>
         (excerpt = statusText r \<or> length excerpt \<le> 200))) \<and>
   (ok r \<longrightarrow>
      (postQuery ns (FetchResponse r) =
         Inl (Exn ''Error'' ''Backend returned an empty response body.'') \<longleftrightarrow>
       \<not> (str_includes (case contentType r of None \<Rightarrow> [] | Some c \<Rightarrow> c) ''application/json'' \<and>
          (\<exists>b. bodyJson r = Some b \<and> truthy b)))) \<and>
   (postQuery ns (FetchResponse r) = Inr b \<longleftrightarrow>
      ok r \<and>
      str_includes (case contentType r of None \<Rightarrow> [] | Some c \<Rightarrow> c) ''application/json'' \<and>
      bodyJson r = Some b \<and> truthy b)"
  by (auto simp: postQuery_def after_body_def Let_def split: option.splits)

theorem non_json_or_empty_body_fails_witness:
  "postQuery (\<lambda>n. [])
     (FetchResponse \<lparr>status = 502, statusText = ''Bad Gateway'',
        contentType = Some ''text/html'', bodyText = Some ''<html>502</html>'',
        bodyJson = None\<rparr>) =
     Inl (Exn ''Error''
       (''HTTP 502 '' @ en_dash @ '' Backend returned a non-JSON response. <html>502</html>'')) \<and>
   postQuery (\<lambda>n. [])
     (FetchResponse \<lparr>status = 200, statusText = ''OK'',
        contentType = Some ''application/json'', bodyText = Some [], bodyJson = None\<rparr>) =
     Inl (Exn ''Error'' ''Backend returned an empty response body.'')"
proof -
  let ?r1 = "\<lparr>status = 502, statusText = ''Bad Gateway'',
        contentType = Some ''text/html'', bodyText = Some ''<html>502</html>'',
        bodyJson = None\<rparr>"
  let ?r2 = "\<lparr>status = 200, statusText = ''OK'',
        contentType = Some ''application/json'', bodyText = Some [], bodyJson = None\<rparr>"
  have 1: "\<not> str_includes (case contentType ?r1 of None \<Rightarrow> [] | Some c \<Rightarrow> c) ''application/json''"
    "\<not> ok ?r1" "show_nat 502 = ''502''"
    by (simp_all add: starts_with_def ok_def digit_char_def)
  have 2: "ok ?r2" by (simp add: ok_def)
  show ?thesis
    using non_json_or_empty_body_fails [of ?r1 "\<lambda>n. []"] 1
      non_json_or_empty_body_fails [of ?r2 "\<lambda>n. []"] 2
    by simp
qed

text \<open>
  The claim as it is written fails for a response with a 2xx status and a body that is
  not JSON: the call fails, but with the message of the empty body, which gives neither
  the status code nor any part of the body.
\<close>

theorem non_json_success_counterexample:
  "postQuery (\<lambda>n. [])
     (FetchResponse \<lparr>status = 200, statusText = ''OK'', contentType = Some ''text/html'',
        bodyText = Some ''<html>gateway</html>'', bodyJson = None\<rparr>) =
     Inl (Exn ''Error'' ''Backend returned an empty response body.'') \<and>
   \<not> str_includes ''Backend returned an empty response body.'' (show_nat 200) \<and>
   \<not> str_includes ''Backend returned an empty response body.''
       (take 200 ''<html>gateway</html>'')"
  by (simp add: postQuery_def after_body_def ok_def starts_with_def digit_char_def)

section \<open>Properties of submission, timeout and clearing\<close>

lemma exec_append: "exec ns cp (evs @ evs') = foldl (step ns cp) (exec ns cp evs) evs'"
  by (simp add: exec_def)

lemma inv_timers:
  "inv s \<Longrightarrow> map fst (timers s) = map fst (inflight s) \<and> (\<forall>tm \<in> set (timers s). now s < snd tm)"
  by (auto simp: inv_def quiet_def busy_def)

lemma advances_quiet:
  "inv s \<Longrightarrow> \<not> loading s \<Longrightarrow>
   foldl (step ns cp) s (map Advance ds) = s\<lparr>now := now s + sum_list ds\<rparr>"
proof (induction ds arbitrary: s)
  case Nil
  then show ?case by simp
next
  case (Cons d ds)
  let ?s1 = "s\<lparr>now := now s + d\<rparr>"
  have st: "step ns cp s (Advance d) = ?s1" using Cons.prems by (simp add: step_Advance_quiet)
  have "inv ?s1" using inv_step [OF Cons.prems(1), of ns cp "Advance d"] st by simp
  moreover have "\<not> loading ?s1" using Cons.prems by simp
  ultimately show ?case using Cons.IH [of ?s1] st by (simp add: add.assoc)
qed

lemma advances_early:
  "inv s \<Longrightarrow> timers s = [(c, t)] \<Longrightarrow> now s + sum_list ds < t \<Longrightarrow>
   foldl (step ns cp) s (map Advance ds) = s\<lparr>now := now s + sum_list ds\<rparr>"
proof (induction ds arbitrary: s)
  case Nil
  then show ?case by simp
next
  case (Cons d ds)
  let ?s1 = "s\<lparr>now := now s + d\<rparr>"
  have lt: "now s + d < t" using Cons.prems(3) by simp
  have st: "step ns cp s (Advance d) = ?s1"
    using step_Advance_early [OF Cons.prems(1,2) lt] by simp
  have "inv ?s1" using inv_step [OF Cons.prems(1), of ns cp "Advance d"] st by simp
  moreover have "timers ?s1 = [(c, t)]" using Cons.prems by simp
  moreover have "now ?s1 + sum_list ds < t" using Cons.prems(3) by simp
  ultimately show ?case using Cons.IH [of ?s1] st by (simp add: add.assoc)
qed

lemma advances_due:
  "inv s \<Longrightarrow> timers s = [(c, t)] \<Longrightarrow> t \<le> now s + sum_list ds \<Longrightarrow>
   postQuery ns (cancelled_fetch (cp c)) = Inl e \<Longrightarrow>
   foldl (step ns cp) s (map Advance ds) =
     s\<lparr>now := now s + sum_list ds, aborted := insert c (aborted s),
       error := Some (err_text e), timers := [], loading := False, inflight := []\<rparr>"
proof (induction ds arbitrary: s)
  case Nil
  then have "now s < t" using inv_timers [of s] by simp
  then show ?case using Nil by simp
next
  case (Cons d ds)
  show ?case
  proof (cases "now s + d < t")
    case True
    let ?s1 = "s\<lparr>now := now s + d\<rparr>"
    have st: "step ns cp s (Advance d) = ?s1"
      using step_Advance_early [OF Cons.prems(1,2) True] by simp
    have "inv ?s1" using inv_step [OF Cons.prems(1), of ns cp "Advance d"] st by simp
    moreover have "timers ?s1 = [(c, t)]" using Cons.prems by simp
    moreover have "t \<le> now ?s1 + sum_list ds" using Cons.prems(3) by simp
    ultimately show ?thesis using Cons.IH [of ?s1] st Cons.prems(4) by (simp add: add.assoc)
  next
    case False
    then have le: "t \<le> now s + d" by simp
    let ?s2 = "s\<lparr>now := now s + d, aborted := insert c (aborted s),
      error := Some (err_text e), timers := [], loading := False, inflight := []\<rparr>"
    have st: "step ns cp s (Advance d) = ?s2"
      using step_Advance_due [where cp = cp, OF Cons.prems(1,2) le Cons.prems(4)] by simp
    have "inv ?s2" using inv_step [OF Cons.prems(1), of ns cp "Advance d"] st by simp
    moreover have "\<not> loading ?s2" by simp
    ultimately show ?thesis using advances_quiet [of ?s2 ns cp ds] st by (simp add: add.assoc)
  qed
qed


lemma submit_accept_step:
  "inv s \<Longrightarrow> trim (query s) \<noteq> [] \<Longrightarrow> \<not> loading s \<Longrightarrow> step ns cp s Submit = handleSubmit s"
  using step_Submit_accept by blast

lemma submit_accept_fields:
  assumes "inv s" "trim (query s) \<noteq> []" "\<not> loading s"
  shows "inv (handleSubmit s)"
    "timers (handleSubmit s) = [(controllers s, now s + QUERY_TIMEOUT_MS)]"
    "inflight (handleSubmit s) = [(controllers s, trim (query s))]"
    "now (handleSubmit s) = now s"
    "aborted (handleSubmit s) =
       (case abortRef s of None \<Rightarrow> aborted s | Some c \<Rightarrow> insert c (aborted s))"
    "abortRef (handleSubmit s) = Some (controllers s)"
    "controllers (handleSubmit s) = Suc (controllers s)"
    "loading (handleSubmit s)" "error (handleSubmit s) = None" "result (handleSubmit s) = JNull"
    "controllers s \<notin> aborted (handleSubmit s)"
proof -
  have q: "quiet s" using assms by (auto simp: inv_def busy_def)
  have 1: "step (\<lambda>n. []) (\<lambda>c. BeforeResponse) s Submit = handleSubmit s"
    using submit_accept_step assms by blast
  show "inv (handleSubmit s)"
    using inv_step [OF assms(1), of "\<lambda>n. []" "\<lambda>c. BeforeResponse" Submit] 1 by simp
  show "timers (handleSubmit s) = [(controllers s, now s + QUERY_TIMEOUT_MS)]"
    "inflight (handleSubmit s) = [(controllers s, trim (query s))]"
    "now (handleSubmit s) = now s"
    "aborted (handleSubmit s) =
       (case abortRef s of None \<Rightarrow> aborted s | Some c \<Rightarrow> insert c (aborted s))"
    "abortRef (handleSubmit s) = Some (controllers s)"
    "controllers (handleSubmit s) = Suc (controllers s)"
    "loading (handleSubmit s)" "error (handleSubmit s) = None" "result (handleSubmit s) = JNull"
    using q assms(2,3)
    by (simp_all add: handleSubmit_def Let_def abort_current_def quiet_def split: option.splits)
  show "controllers s \<notin> aborted (handleSubmit s)"
    using step_Submit_accept [OF assms(2,3,1), of "\<lambda>n. []" "\<lambda>c. BeforeResponse"]
    by (simp add: busy_def)
qed

text \<open>
  Let a submission be accepted and let nothing but time follow it, the response not
  having arrived when the deadline comes. As long as less than 90000 ms have passed the
  request is pending and its controller is not aborted; once 90000 ms have passed the
  controller is aborted, the state is Failed with the message
  \<^verbatim>\<open>Request timed out or was cancelled. Please try again.\<close> and no timeout is left.
  Whenever a call settles, its timeout is cleared with it: at every moment the pending
  timeouts are those of the calls in flight, and none of them is overdue.
\<close>

theorem timeout_and_timer_cleanup:
  "(trim (query (exec ns cp evs)) \<noteq> [] \<and> \<not> loading (exec ns cp evs) \<and>
    cp (controllers (exec ns cp evs)) = BeforeResponse \<longrightarrow>
      (sum_list ds < 90000 \<longrightarrow>
         lifecycle_of (exec ns cp (evs @ Submit # map Advance ds)) = Pending \<and>
         controllers (exec ns cp evs) \<notin> aborted (exec ns cp (evs @ Submit # map Advance ds)) \<and>
         map fst (timers (exec ns cp (evs @ Submit # map Advance ds))) =
           [controllers (exec ns cp evs)]) \<and>
      (90000 \<le> sum_list ds \<longrightarrow>
         lifecycle_of (exec ns cp (evs @ Submit # map Advance ds)) = Failed TIMEOUT_MESSAGE \<and>
         controllers (exec ns cp evs) \<in> aborted (exec ns cp (evs @ Submit # map Advance ds)) \<and>
         timers (exec ns cp (evs @ Submit # map Advance ds)) = [] \<and>
         inflight (exec ns cp (evs @ Submit # map Advance ds)) = [])) \<and>
   QUERY_TIMEOUT_MS = 90000 \<and>
   TIMEOUT_MESSAGE = ''Request timed out or was cancelled. Please try again.'' \<and>
   c \<notin> set (map fst (timers (exec ns cp (evs @ [Settle c fr])))) \<and>
   c \<notin> set (map fst (inflight (exec ns cp (evs @ [Settle c fr])))) \<and>
   map fst (timers (exec ns cp evs)) = map fst (inflight (exec ns cp evs)) \<and>
   (\<forall>tm \<in> set (timers (exec ns cp evs)). now (exec ns cp evs) < snd tm)"
proof -
  let ?s = "exec ns cp evs"
  let ?h = "handleSubmit ?s"
  let ?s' = "exec ns cp (evs @ Submit # map Advance ds)"
  have i: "inv ?s" by (rule inv_exec)
  have A: "(sum_list ds < 90000 \<longrightarrow>
         lifecycle_of ?s' = Pending \<and> controllers ?s \<notin> aborted ?s' \<and>
         map fst (timers ?s') = [controllers ?s]) \<and>
      (90000 \<le> sum_list ds \<longrightarrow>
         lifecycle_of ?s' = Failed TIMEOUT_MESSAGE \<and> controllers ?s \<in> aborted ?s' \<and>
         timers ?s' = [] \<and> inflight ?s' = [])"
    if g: "trim (query ?s) \<noteq> []" "\<not> loading ?s" and b: "cp (controllers ?s) = BeforeResponse"
  proof -
    note f = submit_accept_fields [OF i g]
    have e: "?s' = foldl (step ns cp) ?h (map Advance ds)"
      using submit_accept_step [OF i g, of ns cp] by (simp add: exec_def)
    have rej: "postQuery ns (cancelled_fetch (cp (controllers ?s))) =
        Inl (Exn ''AbortError'' ''signal is aborted without reason'')"
      using b cancelled_before_response [of ns] by (simp only:)
    have early: "lifecycle_of ?s' = Pending \<and> controllers ?s \<notin> aborted ?s' \<and>
         map fst (timers ?s') = [controllers ?s]" if "sum_list ds < 90000"
    proof -
      have "now ?h + sum_list ds < now ?s + QUERY_TIMEOUT_MS"
        using that f(4) by (simp add: QUERY_TIMEOUT_MS_def)
      from advances_early [OF f(1) f(2) this, of ns cp] e
      show ?thesis using f by (simp add: lifecycle_of_def)
    qed
    have due: "lifecycle_of ?s' = Failed TIMEOUT_MESSAGE \<and> controllers ?s \<in> aborted ?s' \<and>
         timers ?s' = [] \<and> inflight ?s' = []" if "90000 \<le> sum_list ds"
    proof -
      have "now ?s + QUERY_TIMEOUT_MS \<le> now ?h + sum_list ds"
        using that f(4) by (simp add: QUERY_TIMEOUT_MS_def)
      from advances_due [where cp = cp, OF f(1) f(2) this rej] e
      show ?thesis by (simp add: lifecycle_of_def err_text_def TIMEOUT_MESSAGE_def)
    qed
    from early due show ?thesis by blast
  qed
  have B: "QUERY_TIMEOUT_MS = 90000 \<and>
      TIMEOUT_MESSAGE = ''Request timed out or was cancelled. Please try again.''"
    by (simp add: QUERY_TIMEOUT_MS_def TIMEOUT_MESSAGE_def)
  have C: "c \<notin> set (map fst (timers (exec ns cp (evs @ [Settle c fr])))) \<and>
     c \<notin> set (map fst (inflight (exec ns cp (evs @ [Settle c fr]))))"
  proof (cases "c \<in> set (map fst (inflight ?s))")
    case False
    then show ?thesis using step_Settle_other [OF i False, of ns cp fr] inv_timers [OF i]
      by (simp add: exec_snoc)
  next
    case True
    then obtain q where q: "inflight ?s = [(c, q)]" using i
      by (auto simp: inv_def quiet_def busy_def)
    show ?thesis using step_Settle_busy [OF i q, of ns cp fr]
      by (simp add: exec_snoc split: sum.splits)
  qed
  from A B C inv_timers [OF i] show ?thesis by blast
qed

theorem timeout_and_timer_cleanup_witness:
  "lifecycle_of (exec (\<lambda>n. []) (\<lambda>c. BeforeResponse)
      ([SetQuery ''q''] @ Submit # map Advance [89999])) = Pending \<and>
   lifecycle_of (exec (\<lambda>n. []) (\<lambda>c. BeforeResponse)
      ([SetQuery ''q''] @ Submit # map Advance [89999, 1])) = Failed TIMEOUT_MESSAGE \<and>
   timers (exec (\<lambda>n. []) (\<lambda>c. BeforeResponse)
      ([SetQuery ''q''] @ Submit # map Advance [89999, 1])) = []"
proof -
  have g: "trim (query (exec (\<lambda>n. []) (\<lambda>c. BeforeResponse) [SetQuery ''q''])) \<noteq> []"
    "\<not> loading (exec (\<lambda>n. []) (\<lambda>c. BeforeResponse) [SetQuery ''q''])"
    by (simp_all add: exec_def step_def drain_def init_def trim_def is_ws_def)
  show ?thesis
    using g timeout_and_timer_cleanup [of "\<lambda>n. []" "\<lambda>c. BeforeResponse" "[SetQuery ''q'']" "[89999]" 0 "FetchRejected (Exn [] [])"]
      timeout_and_timer_cleanup [of "\<lambda>n. []" "\<lambda>c. BeforeResponse" "[SetQuery ''q'']" "[89999, 1]" 0 "FetchRejected (Exn [] [])"]
    by simp
qed


text \<open>
  Claim C3. The claim fails on the source when the deadline comes while the body of a
  response is being read, a call that has not settled either. The timeout aborts the
  controller and the read fails, but \<^verbatim>\<open>postQuery\<close> catches that failure as it catches
  a body that does not parse, where its first \<^verbatim>\<open>catch\<close> passes an AbortError on:
  for a 200 response with a JSON content type the state is Pending up to the deadline
  and then Failed with the message of the empty body, not with the message of the
  timeout. The controller is aborted and no timeout is left.
\<close>

theorem timeout_during_body_read:
  "lifecycle_of (exec (\<lambda>n. []) (\<lambda>c. DuringBody 200 ''OK'' (Some ''application/json''))
      [SetQuery ''q'', Submit, Advance 89999]) = Pending \<and>
   lifecycle_of (exec (\<lambda>n. []) (\<lambda>c. DuringBody 200 ''OK'' (Some ''application/json''))
      [SetQuery ''q'', Submit, Advance 90000]) =
     Failed ''Backend returned an empty response body.'' \<and>
   lifecycle_of (exec (\<lambda>n. []) (\<lambda>c. DuringBody 200 ''OK'' (Some ''application/json''))
      [SetQuery ''q'', Submit, Advance 90000]) \<noteq> Failed TIMEOUT_MESSAGE \<and>
   0 \<in> aborted (exec (\<lambda>n. []) (\<lambda>c. DuringBody 200 ''OK'' (Some ''application/json''))
      [SetQuery ''q'', Submit, Advance 90000]) \<and>
   timers (exec (\<lambda>n. []) (\<lambda>c. DuringBody 200 ''OK'' (Some ''application/json''))
      [SetQuery ''q'', Submit, Advance 90000]) = []"
  by (simp add: exec_def step_def drain_def handleSubmit_def abort_current_def resume_def
      postQuery_def after_body_def ok_def starts_with_def init_def trim_def is_ws_def Let_def
      advance_clock_def QUERY_TIMEOUT_MS_def lifecycle_of_def TIMEOUT_MESSAGE_def)

lemmas eval_trace =
  exec_def step_def drain_def handleSubmit_def handleClear_def abort_current_def resume_def
  postQuery_def init_def trim_def is_ws_def Let_def fillExample_def advance_clock_def
  QUERY_TIMEOUT_MS_def

text \<open>
  Claim C7, as the source has it. The clear handler leaves the query empty and the state
  Idle (no result, no error, not loading), with the controller in \<^verbatim>\<open>abortRef\<close>
  aborted. When no request is pending that is the state after the clear. When a request
  is pending, its cancellation settles it at once: the rest of \<^verbatim>\<open>handleSubmit\<close> stores
  an error, so the state after the clear is Failed, with the message
  \<^verbatim>\<open>Request timed out or was cancelled. Please try again.\<close> when the response had not
  arrived yet, and no call or timeout remains.
\<close>

theorem clear_idle_then_cancelled:
  "lifecycle_of (handleClear s) = Idle \<and> query (handleClear s) = [] \<and>
   result (handleClear s) = JNull \<and> error (handleClear s) = None \<and>
   \<not> loading (handleClear s) \<and>
   (\<forall>c. abortRef s = Some c \<longrightarrow> c \<in> aborted (handleClear s)) \<and>
   (\<not> loading (exec ns cp evs) \<longrightarrow>
      exec ns cp (evs @ [Clear]) = handleClear (exec ns cp evs)) \<and>
   (loading (exec ns cp evs) \<longrightarrow>
      (\<exists>m. lifecycle_of (exec ns cp (evs @ [Clear])) = Failed m) \<and>
      (cp (controllers (exec ns cp evs) - 1) = BeforeResponse \<longrightarrow>
         lifecycle_of (exec ns cp (evs @ [Clear])) = Failed TIMEOUT_MESSAGE) \<and>
      query (exec ns cp (evs @ [Clear])) = [] \<and>
      result (exec ns cp (evs @ [Clear])) = JNull \<and>
      inflight (exec ns cp (evs @ [Clear])) = [] \<and>
      timers (exec ns cp (evs @ [Clear])) = [] \<and>
      controllers (exec ns cp evs) - 1 \<in> aborted (exec ns cp (evs @ [Clear])))"
proof -
  let ?s = "exec ns cp evs"
  have i: "inv ?s" by (rule inv_exec)
  have 1: "lifecycle_of (handleClear s) = Idle \<and> query (handleClear s) = [] \<and>
   result (handleClear s) = JNull \<and> error (handleClear s) = None \<and>
   \<not> loading (handleClear s) \<and>
   (\<forall>c. abortRef s = Some c \<longrightarrow> c \<in> aborted (handleClear s))"
    by (simp add: handleClear_def abort_current_def lifecycle_of_def split: option.splits)
  have 2: "exec ns cp (evs @ [Clear]) = handleClear ?s" if "\<not> loading ?s"
    using step_Clear_quiet [OF i that, of ns cp] by (simp add: exec_snoc)
  have 3: "(\<exists>m. lifecycle_of (exec ns cp (evs @ [Clear])) = Failed m) \<and>
      (cp (controllers ?s - 1) = BeforeResponse \<longrightarrow>
         lifecycle_of (exec ns cp (evs @ [Clear])) = Failed TIMEOUT_MESSAGE) \<and>
      query (exec ns cp (evs @ [Clear])) = [] \<and>
      result (exec ns cp (evs @ [Clear])) = JNull \<and>
      inflight (exec ns cp (evs @ [Clear])) = [] \<and>
      timers (exec ns cp (evs @ [Clear])) = [] \<and>
      controllers ?s - 1 \<in> aborted (exec ns cp (evs @ [Clear]))" if l: "loading ?s"
  proof -
    obtain e where e: "postQuery ns (cancelled_fetch (cp (controllers ?s - 1))) = Inl e"
      using cancelled_rejects by blast
    have r: "abortRef ?s = Some (controllers ?s - 1)"
      using i l by (auto simp: inv_def quiet_def busy_def)
    have x: "exec ns cp (evs @ [Clear]) =
        (handleClear ?s)\<lparr>error := Some (err_text e), timers := [], loading := False, inflight := []\<rparr>"
      using step_Clear_busy [where cp = cp, OF i l e] by (simp add: exec_snoc)
    have m: "cp (controllers ?s - 1) = BeforeResponse \<Longrightarrow> err_text e = TIMEOUT_MESSAGE"
      using e cancelled_before_response [of ns] by (auto simp: err_text_def)
    show ?thesis using m r err_text_nonempty [of e]
      by (auto simp: x lifecycle_of_def handleClear_def abort_current_def)
  qed
  from 1 2 3 show ?thesis by blast
qed

theorem clear_idle_then_cancelled_witness:
  "lifecycle_of (handleClear (exec (\<lambda>n. []) (\<lambda>c. BeforeResponse) [SetQuery ''q'', Submit])) = Idle \<and>
   loading (exec (\<lambda>n. []) (\<lambda>c. BeforeResponse) [SetQuery ''q'', Submit]) \<and>
   lifecycle_of (exec (\<lambda>n. []) (\<lambda>c. BeforeResponse) ([SetQuery ''q'', Submit] @ [Clear])) =
     Failed TIMEOUT_MESSAGE \<and>
   \<not> loading (exec (\<lambda>n. []) (\<lambda>c. BeforeResponse) [SetQuery ''q'']) \<and>
   lifecycle_of (exec (\<lambda>n. []) (\<lambda>c. BeforeResponse) ([SetQuery ''q''] @ [Clear])) = Idle"
proof -
  have 1: "loading (exec (\<lambda>n. []) (\<lambda>c. BeforeResponse) [SetQuery ''q'', Submit])"
    "\<not> loading (exec (\<lambda>n. []) (\<lambda>c. BeforeResponse) [SetQuery ''q''])"
    by (simp_all add: eval_trace)
  show ?thesis
    using 1
      clear_idle_then_cancelled [of "exec (\<lambda>n. []) (\<lambda>c. BeforeResponse) [SetQuery ''q'', Submit]"
        "\<lambda>n. []" "\<lambda>c. BeforeResponse" "[SetQuery ''q'', Submit]"]
      clear_idle_then_cancelled [of "exec (\<lambda>n. []) (\<lambda>c. BeforeResponse) [SetQuery ''q'']"
        "\<lambda>n. []" "\<lambda>c. BeforeResponse" "[SetQuery ''q'']"]
    by simp
qed

text \<open>
  The claim as it is written fails: a clear while the request of the query \<^verbatim>\<open>q\<close> is
  pending leaves the state Failed, not Idle.
\<close>

theorem clear_while_pending_counterexample:
  "lifecycle_of (exec (\<lambda>n. []) (\<lambda>c. BeforeResponse) [SetQuery ''q'', Submit]) = Pending \<and>
   lifecycle_of (exec (\<lambda>n. []) (\<lambda>c. BeforeResponse) [SetQuery ''q'', Submit, Clear]) =
     Failed ''Request timed out or was cancelled. Please try again.'' \<and>
   lifecycle_of (exec (\<lambda>n. []) (\<lambda>c. BeforeResponse) [SetQuery ''q'', Submit, Clear]) \<noteq> Idle"
  by (simp add: eval_trace lifecycle_of_def TIMEOUT_MESSAGE_def)

text \<open>
  The rest of \<^verbatim>\<open>handleSubmit\<close> does not look at the signal of its controller: what it
  does for a call in flight is the same whether that controller is aborted or not. That
  no response of an aborted controller changes the state rests on the platform, which
  leaves no aborted call in flight.
\<close>

lemma resume_ignores_abort:
  "resume c r (s\<lparr>aborted := A\<rparr>) = (resume c r s)\<lparr>aborted := A\<rparr>"
  by (cases r) (simp_all add: resume_def Let_def)

text \<open>
  Claim C1, as the source has it. A submit while a request is pending changes nothing: the
  pending request is not superseded. When a submission is accepted, the controller that
  \<^verbatim>\<open>abortRef\<close> held is aborted, and the new controller, which is not aborted, takes its
  place before the call is made. An aborted call being settled by the
  platform as soon as it is aborted, at every moment a call in flight belongs to the
  controller created last, which is the one in \<^verbatim>\<open>abortRef\<close> and is not aborted; so a
  response for an aborted controller finds no call to resume and leaves the state as it
  is.
\<close>

theorem latest_submission_only:
  "(loading (exec ns cp evs) \<longrightarrow> exec ns cp (evs @ [Submit]) = exec ns cp evs) \<and>
   (trim (query (exec ns cp evs)) \<noteq> [] \<and> \<not> loading (exec ns cp evs) \<longrightarrow>
      (\<forall>c. abortRef (exec ns cp evs) = Some c \<longrightarrow> c \<in> aborted (exec ns cp (evs @ [Submit]))) \<and>
      abortRef (exec ns cp (evs @ [Submit])) = Some (controllers (exec ns cp evs)) \<and>
      controllers (exec ns cp evs) \<notin> aborted (exec ns cp (evs @ [Submit])) \<and>
      inflight (exec ns cp (evs @ [Submit])) =
        [(controllers (exec ns cp evs), trim (query (exec ns cp evs)))]) \<and>
   (\<forall>r \<in> set (inflight (exec ns cp evs)).
      abortRef (exec ns cp evs) = Some (fst r) \<and> Suc (fst r) = controllers (exec ns cp evs) \<and>
      fst r \<notin> aborted (exec ns cp evs)) \<and>
   (c \<in> aborted (exec ns cp evs) \<longrightarrow> exec ns cp (evs @ [Settle c fr]) = exec ns cp evs)"
proof -
  let ?s = "exec ns cp evs"
  have i: "inv ?s" by (rule inv_exec)
  have 1: "exec ns cp (evs @ [Submit]) = ?s" if "loading ?s"
    using step_Submit_noop [of ?s ns cp] i that by (simp add: exec_snoc)
  have 2: "(\<forall>c. abortRef ?s = Some c \<longrightarrow> c \<in> aborted (exec ns cp (evs @ [Submit]))) \<and>
      abortRef (exec ns cp (evs @ [Submit])) = Some (controllers ?s) \<and>
      controllers ?s \<notin> aborted (exec ns cp (evs @ [Submit])) \<and>
      inflight (exec ns cp (evs @ [Submit])) = [(controllers ?s, trim (query ?s))]"
    if g: "trim (query ?s) \<noteq> []" "\<not> loading ?s"
    using submit_accept_fields [OF i g] submit_accept_step [OF i g, of ns cp]
    by (simp add: exec_snoc)
  have 3: "\<forall>r \<in> set (inflight ?s).
      abortRef ?s = Some (fst r) \<and> Suc (fst r) = controllers ?s \<and> fst r \<notin> aborted ?s"
    using i by (auto simp: inv_def quiet_def busy_def)
  have 4: "exec ns cp (evs @ [Settle c fr]) = ?s" if "c \<in> aborted ?s"
  proof -
    have "c \<notin> set (map fst (inflight ?s))" using 3 that by auto
    then show ?thesis using step_Settle_other [OF i, of c ns cp fr] by (simp add: exec_snoc)
  qed
  from 1 2 3 4 show ?thesis by blast
qed

theorem latest_submission_only_witness:
  "abortRef (exec (\<lambda>n. []) (\<lambda>c. BeforeResponse) [SetQuery ''a'', Submit, Clear, SetQuery ''b'']) = Some 0 \<and>
   0 \<in> aborted (exec (\<lambda>n. []) (\<lambda>c. BeforeResponse)
         ([SetQuery ''a'', Submit, Clear, SetQuery ''b''] @ [Submit])) \<and>
   inflight (exec (\<lambda>n. []) (\<lambda>c. BeforeResponse)
         ([SetQuery ''a'', Submit, Clear, SetQuery ''b''] @ [Submit])) = [(1, ''b'')] \<and>
   exec (\<lambda>n. []) (\<lambda>c. BeforeResponse)
     ([SetQuery ''a'', Submit, Clear, SetQuery ''b'', Submit] @
      [Settle 0 (FetchResponse \<lparr>status = 200, statusText = ''OK'',
          contentType = Some ''application/json'', bodyText = None,
          bodyJson = Some (JObj [(''answer'', JStr ''stale'')])\<rparr>)]) =
   exec (\<lambda>n. []) (\<lambda>c. BeforeResponse) [SetQuery ''a'', Submit, Clear, SetQuery ''b'', Submit]"
proof -
  let ?t = "[SetQuery ''a'', Submit, Clear, SetQuery ''b'']"
  have 1: "abortRef (exec (\<lambda>n. []) (\<lambda>c. BeforeResponse) ?t) = Some 0"
    "controllers (exec (\<lambda>n. []) (\<lambda>c. BeforeResponse) ?t) = 1"
    "trim (query (exec (\<lambda>n. []) (\<lambda>c. BeforeResponse) ?t)) = ''b''"
    "\<not> loading (exec (\<lambda>n. []) (\<lambda>c. BeforeResponse) ?t)"
    by (simp_all add: eval_trace)
  have 2: "0 \<in> aborted (exec (\<lambda>n. []) (\<lambda>c. BeforeResponse) (?t @ [Submit]))"
    using 1 latest_submission_only [of "\<lambda>n. []" "\<lambda>c. BeforeResponse" ?t] by simp
  show ?thesis
    using 1 2 latest_submission_only [of "\<lambda>n. []" "\<lambda>c. BeforeResponse" ?t]
      latest_submission_only [of "\<lambda>n. []" "\<lambda>c. BeforeResponse" "?t @ [Submit]" 0]
    by simp
qed

text \<open>
  The claim as it is written fails: a submit while the request of controller 0 is pending
  neither aborts that controller nor creates a new one.
\<close>

theorem submit_while_pending_counterexample:
  "lifecycle_of (exec (\<lambda>n. []) (\<lambda>c. BeforeResponse) [SetQuery ''q'', Submit]) = Pending \<and>
   abortRef (exec (\<lambda>n. []) (\<lambda>c. BeforeResponse) [SetQuery ''q'', Submit]) = Some 0 \<and>
   exec (\<lambda>n. []) (\<lambda>c. BeforeResponse) [SetQuery ''q'', Submit, Submit] =
     exec (\<lambda>n. []) (\<lambda>c. BeforeResponse) [SetQuery ''q'', Submit] \<and>
   0 \<notin> aborted (exec (\<lambda>n. []) (\<lambda>c. BeforeResponse) [SetQuery ''q'', Submit, Submit]) \<and>
   controllers (exec (\<lambda>n. []) (\<lambda>c. BeforeResponse) [SetQuery ''q'', Submit, Submit]) = 1"
  by (simp add: eval_trace lifecycle_of_def)


end
